theory Spec2Isabelle
  imports Complex_Main "HOL-Library.AList"
begin

section \<open>Data model\<close>

text \<open>
  A model of the animation controller of \<open>use-animation-controls.ts\<close> and of
  \<open>buildHTMLProps\<close>. Every method is a function from the state it reads to the state
  it leaves and the value it returns. Names follow the source; the value store
  \<open>values\<close> is the field \<open>vals\<close>, and the fields of a controller other than its
  children are reached through \<open>own\<close>.

  The values a target can hold are JavaScript strings and numbers; a property that is
  read but was never written is \<open>undefined\<close>. A number is the real it denotes; the
  arithmetic of the program rounds, and so does that of the model (see below).
\<close>

datatype jsval = Undefined | Num real | Str string

text \<open>
  A plain JavaScript object is an association list in insertion order:
  \<open>Object.keys\<close> is the list of first components, reading a property is a lookup
  (an absent property reads as \<open>undefined\<close>), and writing a property replaces
  the value in place or appends the new key. Only lists with distinct keys are
  objects.
\<close>

type_synonym obj = "(string \<times> jsval) list"

definition keys :: "(string \<times> 'a) list \<Rightarrow> string list" where
  "keys ob = map fst ob"

definition get_prop :: "obj \<Rightarrow> string \<Rightarrow> jsval" where
  "get_prop ob k = (case map_of ob k of None \<Rightarrow> Undefined | Some v \<Rightarrow> v)"

definition set_prop :: "(string \<times> 'a) list \<Rightarrow> string \<Rightarrow> 'a \<Rightarrow> (string \<times> 'a) list" where
  "set_prop ob k v = AList.update k v ob"

text \<open>The object spread \<open>{...dst, ...src}\<close>: every own property of \<open>src\<close>, in order,
  is written into \<open>dst\<close>.\<close>

definition spread :: "obj \<Rightarrow> obj \<Rightarrow> obj" where
  "spread dst src = fold (\<lambda>(k, v) acc. set_prop acc k v) src dst"

subsection \<open>Numbers\<close>

text \<open>
  A JavaScript number is an IEEE 754 double, and an arithmetic operation returns the
  double nearest to the exact result, a tie going to the even significand.
  \<open>double_round x\<close> is that double: the multiple of the unit \<open>pow2 (exponent x)\<close> nearest
  to \<open>x\<close>, where the unit leaves 53 significant bits to a normal number and is
  \<open>2\<^sup>-\<^sup>1\<^sup>0\<^sup>7\<^sup>4\<close> below the smallest normal number. Overflow to an infinity, \<open>NaN\<close>
  and the sign of zero are not modelled: what is proved about a computed number is
  stated for operands whose results stay below \<open>2\<^sup>1\<^sup>0\<^sup>2\<^sup>4\<close>.
\<close>

definition pow2 :: "int \<Rightarrow> real" where
  "pow2 e = (if 0 \<le> e then 2 ^ nat e else 1 / 2 ^ nat (- e))"

definition round_half_even :: "real \<Rightarrow> int" where
  "round_half_even y =
     (let f = \<lfloor>y\<rfloor>; d = y - of_int f
      in if d < 1/2 then f else if 1/2 < d then f + 1 else if even f then f else f + 1)"

definition exponent :: "real \<Rightarrow> int" where
  "exponent x = max \<lfloor>log 2 \<bar>x\<bar>\<rfloor> (- 1022) - 52"

definition double_round :: "real \<Rightarrow> real" where
  "double_round x =
     (if x = 0 then 0
      else of_int (round_half_even (x / pow2 (exponent x))) * pow2 (exponent x))"

subsection \<open>Building the props of an HTML element\<close>

text \<open>
  \<open>build-html-props.ts\<close>. The visual element carries three style objects. Its methods
  \<open>clean\<close> and \<open>build\<close> belong to the class \<open>HTMLVisualElement\<close>, which is not
  among the sources: they are parameters of the model. The \<open>drag\<close> prop is
  \<open>boolean | "x" | "y" | "lockDirection"\<close> or absent.
\<close>

record visual_element =
  reactStyle :: obj
  style :: obj
  vars :: obj

record visual_element_methods =
  clean :: "visual_element \<Rightarrow> visual_element"
  build :: "visual_element \<Rightarrow> visual_element"

datatype drag_prop = DragBool bool | DragAxis string

fun truthy_drag :: "drag_prop option \<Rightarrow> bool" where
  "truthy_drag None = False"
| "truthy_drag (Some (DragBool b)) = b"
| "truthy_drag (Some (DragAxis s)) = (s \<noteq> [])"

record html_props =
  hp_style :: obj
  hp_draggable :: "bool option"

definition buildHTMLProps ::
  "visual_element_methods \<Rightarrow> visual_element \<Rightarrow> drag_prop option
    \<Rightarrow> visual_element \<times> html_props" where
  "buildHTMLProps m visualElement drag =
     (let ve1 = clean m visualElement;
          ve2 = build m ve1;
          htmlProps =
            \<lparr>hp_style = spread (spread (spread [] (reactStyle ve2)) (style ve2)) (vars ve2),
             hp_draggable = None\<rparr>
      in if truthy_drag drag
         then (ve2, htmlProps\<lparr>hp_style := set_prop (hp_style htmlProps) ''userSelect'' (Str ''none''),
                              hp_draggable := Some False\<rparr>)
         else (ve2, htmlProps))"


subsection \<open>Variants, transitions and animation definitions\<close>

text \<open>
  \<open>use-animation-controls.ts\<close>. A transition has the orchestration fields the controller
  reads, a delay, and further timing parameters that are only passed on. The delay is
  \<open>None\<close> when the transition has no property \<open>delay\<close> of its own, and \<open>Some None\<close> when
  it has the property and its value is \<open>undefined\<close>. A variant
  object is a target together with an optional transition and an optional
  \<open>transitionEnd\<close> target; a variant is such an object or a function of the props that
  returns one. The props handed to a resolver may be \<open>undefined\<close> (\<open>None\<close>).
\<close>

record transition =
  tr_delay :: "real option option"
  beforeChildren :: "bool option"
  afterChildren :: "bool option"
  delayChildren :: "real option"
  staggerChildren :: "real option"
  staggerDirection :: "real option"
  tr_other :: obj

record variant_obj =
  vo_target :: obj
  vo_transition :: "transition option"
  vo_transitionEnd :: "obj option"

datatype 'p variant = Static variant_obj | Resolver "'p option \<Rightarrow> variant_obj"

datatype 'p animationDefinition = LabelList "string list" | Label string | Def "'p variant"

record animationOptions =
  delay :: "real option"
  priority :: "nat option"

record resolved =
  target :: "obj option"
  transition :: "transition option"
  transitionEnd :: "obj option"


text \<open>\<open>x || d\<close> on an optional number and on an optional boolean.\<close>

definition or_num :: "real option \<Rightarrow> real \<Rightarrow> real" where
  "or_num x d = (case x of None \<Rightarrow> d | Some v \<Rightarrow> if v = 0 then d else v)"

definition or_bool :: "bool option \<Rightarrow> bool \<Rightarrow> bool" where
  "or_bool x d = (case x of None \<Rightarrow> d | Some v \<Rightarrow> if v then True else d)"

definition resolveVariant :: "'p variant option \<Rightarrow> 'p option \<Rightarrow> resolved" where
  "resolveVariant variant p =
     (case variant of
        None \<Rightarrow> \<lparr>target = None, transition = None, transitionEnd = None\<rparr>
      | Some v \<Rightarrow>
          (let vo = (case v of Resolver f \<Rightarrow> f p | Static ob \<Rightarrow> ob)
           in \<lparr>target = Some (vo_target vo), transition = vo_transition vo,
               transitionEnd = vo_transitionEnd vo\<rparr>))"

subsection \<open>Motion values and the external collaborators\<close>

text \<open>
  Modelled from the spec: the controllable value of \<open>../../value\<close> (\<open>motionValue\<close>,
  \<open>set\<close>, \<open>control\<close>) and the value store \<open>MotionValuesMap\<close> of
  \<open>./use-motion-values\<close> (\<open>has\<close>, \<open>get\<close>, \<open>set\<close> by key), which the controller
  calls and does not define. A motion value holds its current value and the animations
  started on it: \<open>value.control(getTransition(key, to, config))\<close> is recorded as the
  triple of the arguments of \<open>getTransition\<close>, and the completion signal it returns is
  named by the key and the position of the call in the value's log. \<open>set\<close> writes the
  current value.
\<close>

record control_call =
  cc_key :: string
  cc_to :: jsval
  cc_config :: transition

record motion_value =
  current :: jsval
  controlled :: "control_call list"

type_synonym motionValuesMap = "(string \<times> motion_value) list"

definition motionValue :: "jsval \<Rightarrow> motion_value" where
  "motionValue init = \<lparr>current = init, controlled = []\<rparr>"

text \<open>
  Modelled from the spec: the collaborators that are parameters of the model. They are
  the test for a complex animatable string of \<open>style-value-types\<close>, the reader of the
  live element's style (\<open>styler(ref.current).get\<close>), and the unit converter of
  \<open>../../dom/unit-type-conversion\<close>, a function of the value store, the target and the
  \<open>transitionEnd\<close> target that returns the converted pair.
\<close>

record env =
  complex_test :: "jsval \<Rightarrow> bool"
  styler_get :: "string \<Rightarrow> jsval"
  unitConversion :: "motionValuesMap \<Rightarrow> obj \<Rightarrow> obj option \<Rightarrow> obj \<times> obj option"

definition isAnimatable :: "env \<Rightarrow> jsval \<Rightarrow> bool" where
  "isAnimatable e v = ((case v of Num n \<Rightarrow> True | _ \<Rightarrow> False) \<or> complex_test e v)"

subsection \<open>The controller\<close>

text \<open>
  The fields of \<open>AnimationControls\<close>. The override stack is a JavaScript array with
  holes: a slot is \<open>None\<close> when it is unset, and a write past the end extends the array.
  Priorities are natural numbers. The registered children are controllers of their own,
  nested under their parent in registration order, as the component tree nests them.
\<close>

record 'p controls_fields =
  props :: "'p option"
  vals :: motionValuesMap
  variants :: "(string \<times> 'p variant) list"
  baseTarget :: obj
  overrides :: "'p animationDefinition option list"
  defaultTransition :: "transition option"
  isAnimating :: "string set"

datatype 'p controls =
  Controls (own: "'p controls_fields") (children: "'p controls list option")

definition array_get :: "'a option list \<Rightarrow> nat \<Rightarrow> 'a option" where
  "array_get xs i = (if i < length xs then xs ! i else None)"

definition array_set :: "'a option list \<Rightarrow> nat \<Rightarrow> 'a option \<Rightarrow> 'a option list" where
  "array_set xs i v =
     (if i < length xs then xs[i := v] else xs @ replicate (i - length xs) None @ [v])"

text \<open>
  Completion signals. A promise is a task: already resolved, waiting for the animation
  that a \<open>control\<close> call started, \<open>Promise.all\<close> of tasks, a task with a \<open>then\<close>
  callback, or the task of a child controller. The callbacks of the source are three
  closures, kept as data: the one that assigns \<open>transitionEnd\<close>, \<open>getAnimations\<close> and
  \<open>getChildrenAnimations\<close>.
\<close>

datatype 'p thunk =
    SetTransitionEnd "obj option"
  | GetAnimations "'p variant option" animationOptions
  | GetChildrenAnimations bool string real real real nat

datatype 'p task =
    Resolved
  | Await string nat
  | PromiseAll "'p task list"
  | Then "'p task" "'p thunk"
  | InChild nat "'p task"

subsection \<open>Configuration\<close>

definition setProps :: "'p controls_fields \<Rightarrow> 'p \<Rightarrow> 'p controls_fields" where
  "setProps c p = c\<lparr>props := Some p\<rparr>"

definition setVariants ::
  "'p controls_fields \<Rightarrow> (string \<times> 'p variant) list option \<Rightarrow> 'p controls_fields" where
  "setVariants c vs = (case vs of Some v \<Rightarrow> c\<lparr>variants := v\<rparr> | None \<Rightarrow> c)"

definition setDefaultTransition ::
  "'p controls_fields \<Rightarrow> transition option \<Rightarrow> 'p controls_fields" where
  "setDefaultTransition c t = (case t of Some tr \<Rightarrow> c\<lparr>defaultTransition := Some tr\<rparr> | None \<Rightarrow> c)"

subsection \<open>Setting values directly\<close>

definition setValues_key ::
  "obj \<Rightarrow> string \<Rightarrow> 'p controls_fields \<times> string set \<Rightarrow> 'p controls_fields \<times> string set" where
  "setValues_key tgt key st =
     (case st of (c, isActive) \<Rightarrow>
        if key \<in> isActive then (c, isActive)
        else
          (let stored =
                (case map_of (vals c) key of
                   Some v \<Rightarrow> set_prop (vals c) key (v\<lparr>current := get_prop tgt key\<rparr>)
                 | None \<Rightarrow> set_prop (vals c) key (motionValue (get_prop tgt key)))
           in (c\<lparr>vals := stored, baseTarget := set_prop (baseTarget c) key (get_prop tgt key)\<rparr>,
               insert key isActive)))"

definition setValues ::
  "'p controls_fields \<Rightarrow> obj \<Rightarrow> string set \<Rightarrow> 'p controls_fields \<times> string set" where
  "setValues c tgt isActive = fold (setValues_key tgt) (keys tgt) (c, isActive)"

definition checkForNewValues :: "env \<Rightarrow> 'p controls_fields \<Rightarrow> obj \<Rightarrow> 'p controls_fields" where
  "checkForNewValues e c tgt =
     (let newValueKeys = filter (\<lambda>key. map_of (vals c) key = None) (keys tgt)
      in if newValueKeys = [] then c
         else fold (\<lambda>key c'.
                 let domValue = styler_get e key
                 in c'\<lparr>vals := set_prop (vals c') key (motionValue domValue),
                       baseTarget := set_prop (baseTarget c') key domValue\<rparr>)
               newValueKeys c)"

definition applyVariantLabels :: "'p controls_fields \<Rightarrow> string list \<Rightarrow> 'p controls_fields" where
  "applyVariantLabels c variantLabelList =
     fst (fold (\<lambda>key (c', isSetting).
            let r = resolveVariant (map_of (variants c') key) (props c');
                st1 = (case transitionEnd r of
                         Some te \<Rightarrow> setValues c' te isSetting
                       | None \<Rightarrow> (c', isSetting))
            in case target r of
                 Some tgt \<Rightarrow> setValues (fst st1) tgt (snd st1)
               | None \<Rightarrow> st1)
          (rev variantLabelList) (c, {}))"

subsection \<open>The override stack\<close>


definition setPriorityAnimation ::
  "'p controls_fields \<Rightarrow> 'p animationDefinition \<Rightarrow> nat \<Rightarrow> 'p controls_fields" where
  "setPriorityAnimation c d prio = c\<lparr>overrides := array_set (overrides c) prio (Some d)\<rparr>"

function isHighestPriority_loop :: "'a option list \<Rightarrow> nat \<Rightarrow> bool" where
  "isHighestPriority_loop ov i =
     (if i < length ov
      then (if ov ! i \<noteq> None then False else isHighestPriority_loop ov (i + 1))
      else True)"
  by pat_completeness auto
termination
  by (relation "measure (\<lambda>(ov, i). length ov - i)") auto

definition isHighestPriority :: "'p controls_fields \<Rightarrow> nat \<Rightarrow> bool" where
  "isHighestPriority c prio = isHighestPriority_loop (overrides c) (prio + 1)"

fun resetIsAnimating :: "'p controls \<Rightarrow> 'p controls" where
  "resetIsAnimating (Controls f ch) =
     Controls (f\<lparr>isAnimating := {}\<rparr>) (map_option (map resetIsAnimating) ch)"

subsection \<open>One animation pass\<close>

text \<open>
  \<open>{delay, ...transition}\<close>: the spread overwrites the delay of the options with the
  transition's own property \<open>delay\<close> whenever the transition has one, also when the
  value of that property is \<open>undefined\<close>.
\<close>

definition with_delay :: "real \<Rightarrow> transition option \<Rightarrow> transition" where
  "with_delay d tr =
     (case tr of
        None \<Rightarrow> \<lparr>tr_delay = Some (Some d), beforeChildren = None, afterChildren = None,
                 delayChildren = None, staggerChildren = None, staggerDirection = None,
                 tr_other = []\<rparr>
      | Some t \<Rightarrow> (case tr_delay t of None \<Rightarrow> t\<lparr>tr_delay := Some (Some d)\<rparr> | Some own_delay \<Rightarrow> t))"

definition animate_key ::
  "env \<Rightarrow> obj \<Rightarrow> transition option \<Rightarrow> real \<Rightarrow> nat \<Rightarrow> string
    \<Rightarrow> 'p controls_fields \<times> (string \<times> nat) list \<Rightarrow> 'p controls_fields \<times> (string \<times> nat) list" where
  "animate_key e tgt tr dl prio key st =
     (case st of (c, acc) \<Rightarrow>
        (case map_of (vals c) key of
           None \<Rightarrow> (c, acc)
         | Some v \<Rightarrow>
             if key \<in> isAnimating c \<or> get_prop tgt key = Undefined then (c, acc)
             else
               (let valueTarget = get_prop tgt key;
                    c1 = (if prio = 0
                          then c\<lparr>baseTarget := set_prop (baseTarget c) key valueTarget\<rparr>
                          else c);
                    st2 =
                      (if isAnimatable e valueTarget
                       then (c1\<lparr>vals := set_prop (vals c1) key
                                  (v\<lparr>controlled := controlled v @
                                      [\<lparr>cc_key = key, cc_to = valueTarget,
                                        cc_config = with_delay dl tr\<rparr>]\<rparr>)\<rparr>,
                             acc @ [(key, length (controlled v))])
                       else (c1\<lparr>vals := set_prop (vals c1) key (v\<lparr>current := valueTarget\<rparr>)\<rparr>,
                             acc))
                in ((fst st2)\<lparr>isAnimating := insert key (isAnimating (fst st2))\<rparr>, snd st2))))"

definition animate ::
  "env \<Rightarrow> 'p controls_fields \<Rightarrow> 'p variant option \<Rightarrow> animationOptions
    \<Rightarrow> 'p controls_fields \<times> 'p task" where
  "animate e c animationDefinition opts =
     (let dl = (case delay opts of None \<Rightarrow> 0 | Some d \<Rightarrow> d);
          prio = (case priority opts of None \<Rightarrow> 0 | Some p \<Rightarrow> p);
          r = resolveVariant animationDefinition None
      in case target r of
           None \<Rightarrow> (c, Resolved)
         | Some tgt \<Rightarrow>
             (let c1 = checkForNewValues e c tgt;
                  converted = unitConversion e (vals c1) tgt (transitionEnd r);
                  tr = (case transition r of None \<Rightarrow> defaultTransition c1 | Some t \<Rightarrow> Some t);
                  st = fold (animate_key e (fst converted) tr dl prio) (keys (fst converted))
                         (c1, [])
              in (fst st,
                  Then (PromiseAll (map (\<lambda>(k, n). Await k n) (snd st)))
                       (SetTransitionEnd (snd converted)))))"

subsection \<open>Variant labels and children\<close>

definition getAnimations ::
  "env \<Rightarrow> 'p controls_fields \<Rightarrow> 'p variant option \<Rightarrow> animationOptions
    \<Rightarrow> 'p controls_fields \<times> 'p task" where
  "getAnimations e c variant opts =
     (case variant of Some v \<Rightarrow> animate e c (Some v) opts | None \<Rightarrow> (c, Resolved))"

text \<open>
  The locals \<open>beforeChildren\<close>, \<open>afterChildren\<close>, \<open>delayChildren\<close>, \<open>staggerChildren\<close>
  and \<open>staggerDirection\<close> of \<open>animateVariant\<close>: their defaults, overwritten from the
  variant's transition when the variant and the children both exist.
\<close>

record orchestration =
  o_beforeChildren :: bool
  o_afterChildren :: bool
  o_delayChildren :: real
  o_staggerChildren :: real
  o_staggerDirection :: real

definition orchestrate :: "'p variant option \<Rightarrow> bool \<Rightarrow> orchestration" where
  "orchestrate variant hasChildren =
     (let dflt = \<lparr>o_beforeChildren = False, o_afterChildren = False, o_delayChildren = 0,
                  o_staggerChildren = 0, o_staggerDirection = 1\<rparr>
      in if variant \<noteq> None \<and> hasChildren
         then (case transition (resolveVariant variant None) of
                 None \<Rightarrow> dflt
               | Some t \<Rightarrow>
                   \<lparr>o_beforeChildren = or_bool (beforeChildren t) False,
                    o_afterChildren = or_bool (afterChildren t) False,
                    o_delayChildren = or_num (delayChildren t) 0,
                    o_staggerChildren = or_num (staggerChildren t) 0,
                    o_staggerDirection = or_num (staggerDirection t) 1\<rparr>)
         else dflt)"

definition getChildrenAnimations ::
  "bool \<Rightarrow> string \<Rightarrow> orchestration \<Rightarrow> nat \<Rightarrow> 'p thunk" where
  "getChildrenAnimations hasChildren variantLabel orch prio =
     GetChildrenAnimations hasChildren variantLabel (o_delayChildren orch)
       (o_staggerChildren orch) (o_staggerDirection orch) prio"

text \<open>
  The stagger of \<open>animateChildren\<close>: \<open>generateStaggerDuration\<close> for a registry of
  \<open>n\<close> children, and the options \<open>{priority, delay}\<close> handed to the child at index \<open>i\<close>.
  Each product, difference and sum is a double operation and is rounded; the size of
  the registry, the index and \<open>size - 1\<close> are integers, which a double holds exactly.
\<close>

definition generateStaggerDuration :: "real \<Rightarrow> real \<Rightarrow> nat \<Rightarrow> nat \<Rightarrow> real" where
  "generateStaggerDuration sd sc n =
     (let maxStaggerDuration = double_round ((real n - 1) * sc)
      in if sd = 1 then (\<lambda>i. double_round (real i * sc))
         else (\<lambda>i. double_round (maxStaggerDuration - double_round (real i * sc))))"

definition childOptions :: "real \<Rightarrow> real \<Rightarrow> real \<Rightarrow> nat \<Rightarrow> nat \<Rightarrow> nat \<Rightarrow> animationOptions" where
  "childOptions dc sc sd prio n i =
     \<lparr>delay = Some (double_round (dc + generateStaggerDuration sd sc n i)),
      priority = Some prio\<rparr>"

function (sequential) animateVariant ::
    "env \<Rightarrow> 'p controls \<Rightarrow> string \<Rightarrow> animationOptions \<Rightarrow> 'p controls \<times> 'p task"
  and animateChildren ::
    "env \<Rightarrow> 'p controls \<Rightarrow> string \<Rightarrow> real \<Rightarrow> real \<Rightarrow> real \<Rightarrow> nat \<Rightarrow> 'p controls \<times> 'p task"
  and animateChildren_loop ::
    "env \<Rightarrow> 'p controls list \<Rightarrow> nat \<Rightarrow> string \<Rightarrow> (nat \<Rightarrow> animationOptions)
      \<Rightarrow> ('p controls \<times> 'p task) list" where
  "animateVariant e (Controls f ch) variantLabel opts =
     (let prio = (case priority opts of None \<Rightarrow> 0 | Some p \<Rightarrow> p);
          variant = map_of (variants f) variantLabel;
          orch = orchestrate variant (ch \<noteq> None)
      in if o_beforeChildren orch \<or> o_afterChildren orch
         then (if o_beforeChildren orch
               then (let own = getAnimations e f variant opts
                     in (Controls (fst own) ch,
                         Then (snd own) (getChildrenAnimations (ch \<noteq> None) variantLabel orch prio)))
               else (let sub = animateChildren e (Controls f ch) variantLabel
                                 (o_delayChildren orch) (o_staggerChildren orch)
                                 (o_staggerDirection orch) prio
                     in (fst sub, Then (snd sub) (GetAnimations variant opts))))
         else (let own = getAnimations e f variant opts;
                   sub = animateChildren e (Controls (fst own) ch) variantLabel
                           (o_delayChildren orch) (o_staggerChildren orch)
                           (o_staggerDirection orch) prio
               in (fst sub, PromiseAll [snd own, snd sub])))"
| "animateChildren e (Controls f None) variantLabel dc sc sd prio = (Controls f None, Resolved)"
| "animateChildren e (Controls f (Some cs)) variantLabel dc sc sd prio =
     (let rs = animateChildren_loop e cs 0 variantLabel (childOptions dc sc sd prio (length cs))
      in (Controls f (Some (map fst rs)),
          PromiseAll (map (\<lambda>(i, r). InChild i (snd r)) (enumerate 0 rs))))"
| "animateChildren_loop e [] i variantLabel mkopts = []"
| "animateChildren_loop e (childControls # rest) i variantLabel mkopts =
     animateVariant e childControls variantLabel (mkopts i)
       # animateChildren_loop e rest (i + 1) variantLabel mkopts"
  by pat_completeness auto
termination
  by (relation "measure (\<lambda>x. case x of
        Inl (e, c, l, opts) \<Rightarrow> 3 * size c + 2
      | Inr (Inl (e, c, l, dc, sc, sd, prio)) \<Rightarrow> 3 * size c + 1
      | Inr (Inr (e, cs, i, l, mk)) \<Rightarrow> 3 * size_list size cs + 3)") auto

definition animateVariantLabels ::
  "env \<Rightarrow> 'p controls \<Rightarrow> string list \<Rightarrow> animationOptions \<Rightarrow> 'p controls \<times> 'p task" where
  "animateVariantLabels e c variantLabels opts =
     (let st = fold (\<lambda>label (c', ts).
                  let r = animateVariant e c' label opts in (fst r, ts @ [snd r]))
                (rev variantLabels) (c, [])
      in (fst st, PromiseAll (snd st)))"

subsection \<open>Starting an animation and clearing an override\<close>

definition start ::
  "env \<Rightarrow> 'p controls \<Rightarrow> 'p animationDefinition \<Rightarrow> animationOptions \<Rightarrow> 'p controls \<times> 'p task" where
  "start e c d opts =
     (let c1 = Controls (setPriorityAnimation (own c) d
                           (case priority opts of None \<Rightarrow> 0 | Some p \<Rightarrow> p))
                 (children c);
          deferred = (case priority opts of
                        None \<Rightarrow> False
                      | Some p \<Rightarrow> \<not> isHighestPriority (own c1) p)
      in if deferred then (c1, Resolved)
         else (let c2 = resetIsAnimating c1
               in case d of
                    LabelList ls \<Rightarrow> animateVariantLabels e c2 ls opts
                  | Label l \<Rightarrow> animateVariant e c2 l opts
                  | Def v \<Rightarrow>
                      (let r = animate e (own c2) (Some v) opts
                       in (Controls (fst r) (children c2), snd r))))"


subsection \<open>Settling of completion signals\<close>



section \<open>Example configurations\<close>

text \<open>The constructor: a controller over a value store, everything else initial.\<close>

definition newControls :: "motionValuesMap \<Rightarrow> 'p controls_fields" where
  "newControls vs = \<lparr>props = None, vals = vs, variants = [], baseTarget = [], overrides = [],
     defaultTransition = None, isAnimating = {}\<rparr>"

definition ex_methods :: visual_element_methods where
  "ex_methods = \<lparr>clean = (\<lambda>ve. ve\<lparr>style := [], vars := []\<rparr>),
     build = (\<lambda>ve. ve\<lparr>style := [(''opacity'', Num 0)], vars := [(''--x'', Str ''1px'')]\<rparr>)\<rparr>"

definition ex_element :: visual_element where
  "ex_element = \<lparr>reactStyle = [(''color'', Str ''red''), (''opacity'', Num 1)],
     style = [], vars = []\<rparr>"

definition ex_stack :: "unit controls_fields" where
  "ex_stack = (newControls [])\<lparr>overrides := [Some (Label ''rest''), None, Some (Label ''hover'')]\<rparr>"

definition ex_visible :: "unit controls_fields" where
  "ex_visible = (newControls [])\<lparr>variants :=
     [(''visible'', Static \<lparr>vo_target = [(''opacity'', Num 1)], vo_transition = None,
                             vo_transitionEnd = None\<rparr>)]\<rparr>"

text \<open>
  Collaborators for the examples: no string is a complex animatable value, the live
  element reads \<open>"auto"\<close> everywhere, and no unit needs converting.
\<close>

definition ex_env :: env where
  "ex_env = \<lparr>complex_test = (\<lambda>v. False), styler_get = (\<lambda>k. Str ''auto''),
     unitConversion = (\<lambda>vs t te. (t, te))\<rparr>"

definition noOptions :: animationOptions where
  "noOptions = \<lparr>delay = None, priority = None\<rparr>"

definition ex_child :: "unit controls" where
  "ex_child = Controls
     ((newControls [(''opacity'', motionValue (Num 0))])
        \<lparr>variants := [(''show'', Static \<lparr>vo_target = [(''opacity'', Num 1)],
                          vo_transition = None, vo_transitionEnd = None\<rparr>)]\<rparr>) None"

definition ex_parent :: "unit controls" where
  "ex_parent = Controls (newControls []) (Some [ex_child, ex_child, ex_child])"

text \<open>A controller with a hover override at priority 1 and a fade variant.\<close>

definition ex_fade :: "unit controls" where
  "ex_fade = Controls
     ((newControls [(''opacity'', motionValue (Num 1)), (''display'', motionValue (Str ''block''))])
        \<lparr>variants :=
           [(''visible'', Static \<lparr>vo_target = [(''opacity'', Num 1)], vo_transition = None,
                                   vo_transitionEnd = None\<rparr>),
            (''hidden'', Static \<lparr>vo_target = [(''opacity'', Num 0)], vo_transition = None,
                                  vo_transitionEnd = Some [(''display'', Str ''none'')]\<rparr>),
            (''gone'', Static \<lparr>vo_target = [(''display'', Str ''none'')], vo_transition = None,
                                vo_transitionEnd = None\<rparr>)]\<rparr>) None"

definition ex_busy :: "unit controls" where
  "ex_busy = Controls
     ((own ex_fade)\<lparr>overrides := [None, Some (Label ''hover'')], isAnimating := {''opacity''}\<rparr>)
     None"

text \<open>A controller whose props are a number, and a variant computed from the props.\<close>

definition ex_resolver :: "real variant" where
  "ex_resolver = Resolver (\<lambda>p. \<lparr>vo_target = [(''x'', Num (case p of None \<Rightarrow> 0 | Some n \<Rightarrow> n))],
                                    vo_transition = None, vo_transitionEnd = None\<rparr>)"

definition ex_props :: "real controls" where
  "ex_props = Controls
     ((newControls [(''x'', motionValue (Num 0))])
        \<lparr>props := Some 100, variants := [(''shift'', ex_resolver)]\<rparr>) None"

text \<open>Two explicit targets that share the key \<open>opacity\<close>.\<close>

definition ex_first :: "unit variant" where
  "ex_first = Static \<lparr>vo_target = [(''opacity'', Num (1/2)), (''x'', Num 10)],
                       vo_transition = None, vo_transitionEnd = None\<rparr>"

definition ex_second :: "unit variant" where
  "ex_second = Static \<lparr>vo_target = [(''opacity'', Num (1/5))],
                        vo_transition = None, vo_transitionEnd = None\<rparr>"


text \<open>
  A parent that tracks \<open>x\<close> and whose variant \<open>show\<close> asks for its own pass to run
  after the pass of its child.
\<close>

definition ex_after :: "unit controls" where
  "ex_after = Controls
     ((newControls [(''x'', motionValue (Num 0))])
        \<lparr>variants := [(''show'', Static \<lparr>vo_target = [(''x'', Num 2)],
            vo_transition = Some \<lparr>tr_delay = None, beforeChildren = None,
               afterChildren = Some True, delayChildren = None, staggerChildren = None,
               staggerDirection = None, tr_other = []\<rparr>,
            vo_transitionEnd = None\<rparr>)]\<rparr>)
     (Some [ex_child])"

text \<open>The double nearest to one tenth; JavaScript prints it as \<open>0.1\<close>.\<close>

definition ex_tenth :: real where
  "ex_tenth = 3602879701896397 / 2 ^ 55"

text \<open>
  A completion with nothing left to wait for: no animation awaited and no callback
  still to run. A definition resolves with no target when each variant it names does,
  which is the case only for labels that have no variant.
\<close>

fun nothing_pending :: "'p task \<Rightarrow> bool" where
  "nothing_pending Resolved = True"
| "nothing_pending (Await k n) = False"
| "nothing_pending (PromiseAll ts) = list_all nothing_pending ts"
| "nothing_pending (Then t th) = False"
| "nothing_pending (InChild i t) = nothing_pending t"








section \<open>Rounding to a double\<close>

lemma pow2_powr: "pow2 e = 2 powr (of_int e)"
  by (simp add: pow2_def powr_real_of_int inverse_eq_divide)

lemma pow2_pos [simp]: "0 < pow2 e"
  by (simp add: pow2_powr)

lemma pow2_nonzero [simp]: "pow2 e \<noteq> 0"
  by (simp add: pow2_powr)

lemma pow2_abs [simp]: "\<bar>pow2 e\<bar> = pow2 e"
  by (simp add: pow2_powr)

lemma pow2_add: "pow2 (a + b) = pow2 a * pow2 b"
  by (simp add: pow2_powr powr_add)

lemma pow2_mono: "a \<le> b \<Longrightarrow> pow2 a \<le> pow2 b"
  by (simp add: pow2_powr)

lemma pow2_nat: "0 \<le> e \<Longrightarrow> pow2 e = 2 ^ nat e"
  by (simp add: pow2_def)

lemma double_round_zero [simp]: "double_round 0 = 0"
  by (simp add: double_round_def)

lemma round_half_even_of_int [simp]: "round_half_even (of_int n) = n"
  by (simp add: round_half_even_def)

lemma round_half_even_floor:
  "\<lfloor>y\<rfloor> \<le> round_half_even y \<and> round_half_even y \<le> \<lfloor>y\<rfloor> + 1
   \<and> (round_half_even y = \<lfloor>y\<rfloor> + 1 \<longrightarrow> of_int \<lfloor>y\<rfloor> < y)"
  by (auto simp: round_half_even_def Let_def)

lemma round_half_even_ge: "of_int a \<le> y \<Longrightarrow> a \<le> round_half_even y"
proof -
  assume "of_int a \<le> y"
  then have "a \<le> \<lfloor>y\<rfloor>" by (simp add: le_floor_iff)
  with round_half_even_floor [of y] show ?thesis by linarith
qed

lemma round_half_even_le: "y \<le> of_int b \<Longrightarrow> round_half_even y \<le> b"
proof -
  assume yb: "y \<le> of_int b"
  then have fb: "\<lfloor>y\<rfloor> \<le> b" by (simp add: floor_le_iff)
  show ?thesis
  proof (cases "round_half_even y = \<lfloor>y\<rfloor> + 1")
    case True
    with round_half_even_floor [of y] have "of_int \<lfloor>y\<rfloor> < y" by blast
    with yb have "real_of_int \<lfloor>y\<rfloor> < of_int b" by linarith
    then have "\<lfloor>y\<rfloor> < b" by simp
    with True show ?thesis by simp
  next
    case False
    with round_half_even_floor [of y] fb show ?thesis by linarith
  qed
qed

lemma floor_log_bounds:
  assumes "x \<noteq> 0"
  shows "pow2 \<lfloor>log 2 \<bar>x\<bar>\<rfloor> \<le> \<bar>x\<bar>" and "\<bar>x\<bar> < pow2 (\<lfloor>log 2 \<bar>x\<bar>\<rfloor> + 1)"
proof -
  from assms have pos: "0 < \<bar>x\<bar>" by simp
  have "\<lfloor>log 2 \<bar>x\<bar>\<rfloor> = \<lfloor>log 2 \<bar>x\<bar>\<rfloor>" by simp
  then have "2 powr real_of_int \<lfloor>log 2 \<bar>x\<bar>\<rfloor> \<le> \<bar>x\<bar> \<and> \<bar>x\<bar> < 2 powr real_of_int (\<lfloor>log 2 \<bar>x\<bar>\<rfloor> + 1)"
    using floor_log_eq_powr_iff [OF pos, of 2 "\<lfloor>log 2 \<bar>x\<bar>\<rfloor>"] by simp
  then show "pow2 \<lfloor>log 2 \<bar>x\<bar>\<rfloor> \<le> \<bar>x\<bar>" and "\<bar>x\<bar> < pow2 (\<lfloor>log 2 \<bar>x\<bar>\<rfloor> + 1)"
    by (simp_all add: pow2_powr)
qed

lemma floor_log_eq:
  assumes "x \<noteq> 0" and "pow2 k \<le> \<bar>x\<bar>" and "\<bar>x\<bar> < pow2 (k + 1)"
  shows "\<lfloor>log 2 \<bar>x\<bar>\<rfloor> = k"
proof -
  from assms have pos: "0 < \<bar>x\<bar>" by simp
  from assms(2,3) show ?thesis
    using floor_log_eq_powr_iff [OF pos, of 2 k] by (simp add: pow2_powr)
qed

lemma floor_log_less:
  assumes "x \<noteq> 0" and "\<bar>x\<bar> < pow2 k"
  shows "\<lfloor>log 2 \<bar>x\<bar>\<rfloor> < k"
proof (rule ccontr)
  assume "\<not> \<lfloor>log 2 \<bar>x\<bar>\<rfloor> < k"
  then have "k \<le> \<lfloor>log 2 \<bar>x\<bar>\<rfloor>" by simp
  then have "pow2 k \<le> pow2 \<lfloor>log 2 \<bar>x\<bar>\<rfloor>" by (rule pow2_mono)
  with floor_log_bounds(1) [OF assms(1)] assms(2) show False by linarith
qed

text \<open>A value that is an integer multiple of a power of two not below its own unit
  is left as it is.\<close>

lemma double_round_fixed:
  assumes "y = of_int m * pow2 d" and "exponent y \<le> d"
  shows "double_round y = y"
proof (cases "y = 0")
  case True
  then show ?thesis by simp
next
  case False
  define E where "E = exponent y"
  define q where "q = m * 2 ^ nat (d - E)"
  have "pow2 d = pow2 (d - E) * pow2 E"
    using pow2_add [of "d - E" E] by simp
  also have "pow2 (d - E) = 2 ^ nat (d - E)"
    using assms(2) by (simp add: pow2_nat E_def)
  finally have y: "y = of_int q * pow2 E"
    by (simp add: assms(1) q_def)
  then have "y / pow2 E = of_int q" by simp
  then have "round_half_even (y / pow2 E) = q"
    by (simp only: round_half_even_of_int)
  then have "double_round y = of_int q * pow2 E"
    using False by (simp add: double_round_def E_def)
  with y show ?thesis by simp
qed

lemma exponent_le:
  assumes "y \<noteq> 0" and "\<bar>y\<bar> < pow2 (d + 53)" and "- 1074 \<le> d"
  shows "exponent y \<le> d"
proof -
  from floor_log_less [OF assms(1,2)] have "\<lfloor>log 2 \<bar>y\<bar>\<rfloor> \<le> d + 52" by simp
  with assms(3) show ?thesis by (simp add: exponent_def)
qed

lemma exponent_eq:
  assumes "x \<noteq> 0" and "pow2 k \<le> \<bar>x\<bar>" and "\<bar>x\<bar> < pow2 (k + 1)"
  shows "exponent x = max k (- 1022) - 52"
  using floor_log_eq [OF assms] by (simp add: exponent_def)

lemma double_round_dyadic:
  assumes "\<bar>m\<bar> < 2 ^ 53" and "- 1074 \<le> d"
  shows "double_round (of_int m * pow2 d) = of_int m * pow2 d"
proof (cases "m = 0")
  case True
  then show ?thesis by simp
next
  case False
  let ?y = "real_of_int m * pow2 d"
  have nz: "?y \<noteq> 0" using False by (simp add: less_imp_neq)
  have "\<bar>?y\<bar> = of_int \<bar>m\<bar> * pow2 d" by (simp add: abs_mult)
  also have "\<dots> < 2 ^ 53 * pow2 d"
  proof -
    from assms(1) have "real_of_int \<bar>m\<bar> < real_of_int (2 ^ 53)" by (simp only: of_int_less_iff)
    then show ?thesis by simp
  qed
  also have "\<dots> = pow2 (d + 53)"
    using pow2_add [of d 53] by (simp add: pow2_def)
  finally have "exponent ?y \<le> d" using nz assms(2) by (intro exponent_le)
  then show ?thesis by (intro double_round_fixed [of _ m d]) simp_all
qed

lemma double_round_idem: "double_round (double_round x) = double_round x"
proof (cases "x = 0")
  case True
  then show ?thesis by simp
next
  case False
  define e where "e = exponent x"
  define n where "n = round_half_even (x / pow2 e)"
  have y: "double_round x = of_int n * pow2 e"
    using False by (simp add: double_round_def e_def n_def)
  have e52: "\<lfloor>log 2 \<bar>x\<bar>\<rfloor> \<le> e + 52" "- 1074 \<le> e"
    by (simp_all add: e_def exponent_def)
  have "\<bar>x\<bar> < pow2 (\<lfloor>log 2 \<bar>x\<bar>\<rfloor> + 1)" using False by (rule floor_log_bounds(2))
  also have "\<dots> \<le> pow2 (e + 53)" using e52(1) by (intro pow2_mono) simp
  also have "\<dots> = 2 ^ 53 * pow2 e" using pow2_add [of e 53] by (simp add: pow2_def)
  finally have "\<bar>x\<bar> / pow2 e < 2 ^ 53" by (simp add: pos_divide_less_eq)
  then have "\<bar>x / pow2 e\<bar> < 2 ^ 53" by (simp add: abs_divide)
  then have "x / pow2 e \<le> 2 ^ 53" "- (2 ^ 53) \<le> x / pow2 e"
    by linarith+
  then have ub: "x / pow2 e \<le> of_int (2 ^ 53)" and lb: "of_int (- (2 ^ 53)) \<le> x / pow2 e"
    by simp_all
  have nb1: "n \<le> 2 ^ 53"
    unfolding n_def using ub by (rule round_half_even_le)
  have nb2: "- (2 ^ 53) \<le> n"
    unfolding n_def using lb by (rule round_half_even_ge)
  note nb = nb1 nb2
  consider "\<bar>n\<bar> < 2 ^ 53" | "n = 2 ^ 53" | "n = - (2 ^ 53)" using nb by linarith
  then have "double_round (of_int n * pow2 e) = of_int n * pow2 e"
  proof cases
    case 1
    then show ?thesis using e52(2) by (rule double_round_dyadic)
  next
    case 2
    have "real_of_int n * pow2 e = of_int 1 * pow2 (e + 53)"
      using pow2_add [of e 53] by (simp add: 2 pow2_def)
    moreover have "double_round (of_int 1 * pow2 (e + 53)) = of_int 1 * pow2 (e + 53)"
      using e52(2) by (intro double_round_dyadic) simp_all
    ultimately show ?thesis by simp
  next
    case 3
    have "real_of_int n * pow2 e = of_int (- 1) * pow2 (e + 53)"
      using pow2_add [of e 53] by (simp add: 3 pow2_def)
    moreover have "double_round (of_int (- 1) * pow2 (e + 53)) = of_int (- 1) * pow2 (e + 53)"
      using e52(2) by (intro double_round_dyadic) simp_all
    ultimately show ?thesis by simp
  qed
  with y show ?thesis by simp
qed

lemma double_round_eval:
  assumes "x \<noteq> 0" and "pow2 k \<le> \<bar>x\<bar>" and "\<bar>x\<bar> < pow2 (k + 1)"
  shows "double_round x =
           of_int (round_half_even (x / pow2 (max k (- 1022) - 52))) * pow2 (max k (- 1022) - 52)"
  using assms(1) exponent_eq [OF assms] by (simp add: double_round_def)

lemma pow2_less: "a < b \<Longrightarrow> pow2 a < pow2 b"
  by (simp add: pow2_powr)

lemma floor_log_le:
  assumes "x \<noteq> 0" and "\<bar>x\<bar> \<le> pow2 k"
  shows "\<lfloor>log 2 \<bar>x\<bar>\<rfloor> \<le> k"
proof (rule ccontr)
  assume "\<not> \<lfloor>log 2 \<bar>x\<bar>\<rfloor> \<le> k"
  then have "k < \<lfloor>log 2 \<bar>x\<bar>\<rfloor>" by simp
  then have "pow2 k < pow2 \<lfloor>log 2 \<bar>x\<bar>\<rfloor>" by (rule pow2_less)
  with floor_log_bounds(1) [OF assms(1)] assms(2) show False by linarith
qed

lemma double_round_bound:
  assumes "- 1074 \<le> k" and "\<bar>x\<bar> \<le> pow2 k"
  shows "\<bar>double_round x\<bar> \<le> pow2 k"
proof (cases "x = 0")
  case True
  then show ?thesis using pow2_pos [of k] by (simp add: less_imp_le del: pow2_pos)
next
  case False
  define e where "e = exponent x"
  define q :: int where "q = 2 ^ nat (k - e)"
  define n where "n = round_half_even (x / pow2 e)"
  have ek: "e \<le> k"
    using floor_log_le [OF False assms(2)] assms(1) by (simp add: e_def exponent_def)
  have "pow2 k = pow2 (k - e) * pow2 e"
    using pow2_add [of "k - e" e] by simp
  also have "pow2 (k - e) = of_int q"
    using ek by (simp add: pow2_nat q_def)
  finally have pk: "pow2 k = of_int q * pow2 e" .
  have "\<bar>x\<bar> / pow2 e \<le> of_int q"
    using assms(2) by (simp add: pk pos_divide_le_eq)
  then have "\<bar>x / pow2 e\<bar> \<le> of_int q" by (simp add: abs_divide)
  then have ub: "x / pow2 e \<le> of_int q" and lb: "of_int (- q) \<le> x / pow2 e"
    by (simp_all, linarith+)
  have n1: "n \<le> q" unfolding n_def using ub by (rule round_half_even_le)
  have n2: "- q \<le> n" unfolding n_def using lb by (rule round_half_even_ge)
  from n1 n2 have "\<bar>n\<bar> \<le> q" by linarith
  then have nq: "real_of_int \<bar>n\<bar> \<le> real_of_int q" by (simp only: of_int_le_iff)
  have "\<bar>double_round x\<bar> = real_of_int \<bar>n\<bar> * pow2 e"
    using False by (simp add: double_round_def e_def n_def abs_mult)
  also have "\<dots> \<le> real_of_int q * pow2 e"
    using nq by (intro mult_right_mono) (simp_all add: less_imp_le)
  finally show ?thesis by (simp add: pk)
qed

lemma pow2_double: "pow2 k + pow2 k = pow2 (k + 1)"
  using pow2_add [of k 1] by (simp add: pow2_def)

lemma double_round_sum_bound:
  assumes "- 1074 \<le> k" and "\<bar>x\<bar> \<le> pow2 k" and "\<bar>y\<bar> \<le> pow2 k"
  shows "\<bar>double_round (x + y)\<bar> \<le> pow2 (k + 1)"
    and "\<bar>double_round (x - y)\<bar> \<le> pow2 (k + 1)"
proof -
  from assms(2,3) have "\<bar>x + y\<bar> \<le> pow2 k + pow2 k" "\<bar>x - y\<bar> \<le> pow2 k + pow2 k"
    by linarith+
  then have b: "\<bar>x + y\<bar> \<le> pow2 (k + 1)" "\<bar>x - y\<bar> \<le> pow2 (k + 1)"
    by (simp_all only: pow2_double)
  from assms(1) have k: "- 1074 \<le> k + 1" by simp
  from double_round_bound [OF k b(1)] show "\<bar>double_round (x + y)\<bar> \<le> pow2 (k + 1)" .
  from double_round_bound [OF k b(2)] show "\<bar>double_round (x - y)\<bar> \<le> pow2 (k + 1)" .
qed

lemma double_round_half: "double_round (1 / 2) = 1 / 2"
  using double_round_dyadic [of 1 "- 1"] by (simp add: pow2_def)

lemma double_round_one: "double_round 1 = 1"
  using double_round_dyadic [of 1 0] by (simp add: pow2_def)

lemma ex_tenth_double: "double_round (1 / 10) = ex_tenth"
  unfolding ex_tenth_def
  by (subst double_round_eval [where k = "- 4"])
     (simp_all add: pow2_def round_half_even_def Let_def)

section \<open>Properties of objects\<close>

lemma map_of_set_prop: "map_of (set_prop ob k v) = (map_of ob)(k \<mapsto> v)"
  by (simp add: set_prop_def update_conv')

lemma map_of_spread:
  "distinct (map fst src) \<Longrightarrow> map_of (spread dst src) = map_of dst ++ map_of src"
proof (induction src arbitrary: dst)
  case Nil
  then show ?case by (simp add: spread_def)
next
  case (Cons p src)
  obtain k v where p: "p = (k, v)" by (cases p)
  from Cons.prems p have notin: "k \<notin> fst ` set src" and d: "distinct (map fst src)"
    by auto
  have "map_of (spread dst (p # src)) = map_of (spread (set_prop dst k v) src)"
    by (simp add: spread_def p)
  also have "\<dots> = (map_of dst)(k \<mapsto> v) ++ map_of src"
    by (simp only: Cons.IH [OF d] map_of_set_prop)
  also have "\<dots> = map_of dst ++ map_of (p # src)"
  proof (rule ext)
    fix x
    from notin have "map_of src k = None"
      by (simp add: map_of_eq_None_iff)
    then show "((map_of dst)(k \<mapsto> v) ++ map_of src) x = (map_of dst ++ map_of (p # src)) x"
      by (auto simp: p map_add_def split: option.splits)
  qed
  finally show ?case .
qed

section \<open>The override stack\<close>

lemma isHighestPriority_loop_iff:
  "isHighestPriority_loop ov i \<longleftrightarrow> (\<forall>j. i \<le> j \<and> j < length ov \<longrightarrow> ov ! j = None)"
proof (induction ov i rule: isHighestPriority_loop.induct)
  case (1 ov i)
  show ?case
  proof (cases "i < length ov")
    case False
    then show ?thesis by (subst isHighestPriority_loop.simps) auto
  next
    case True
    show ?thesis
    proof (cases "ov ! i = None")
      case False
      with True show ?thesis
        by (subst isHighestPriority_loop.simps) auto
    next
      case isNone: True
      have "isHighestPriority_loop ov i = isHighestPriority_loop ov (i + 1)"
        using True isNone by (subst isHighestPriority_loop.simps) simp
      also have "\<dots> \<longleftrightarrow> (\<forall>j. i + 1 \<le> j \<and> j < length ov \<longrightarrow> ov ! j = None)"
        using "1.IH" [OF True] isNone by simp
      also have "\<dots> \<longleftrightarrow> (\<forall>j. i \<le> j \<and> j < length ov \<longrightarrow> ov ! j = None)"
      proof
        assume h: "\<forall>j. i + 1 \<le> j \<and> j < length ov \<longrightarrow> ov ! j = None"
        show "\<forall>j. i \<le> j \<and> j < length ov \<longrightarrow> ov ! j = None"
        proof (intro allI impI)
          fix j assume "i \<le> j \<and> j < length ov"
          then show "ov ! j = None" using h isNone by (cases "j = i") auto
        qed
      next
        assume "\<forall>j. i \<le> j \<and> j < length ov \<longrightarrow> ov ! j = None"
        then show "\<forall>j. i + 1 \<le> j \<and> j < length ov \<longrightarrow> ov ! j = None" by auto
      qed
      finally show ?thesis .
    qed
  qed
qed

lemma isHighestPriority_occupied:
  "isHighestPriority c p \<longleftrightarrow> \<not> (\<exists>i. p < i \<and> array_get (overrides c) i \<noteq> None)"
  unfolding isHighestPriority_def isHighestPriority_loop_iff array_get_def
  by (auto simp: Suc_le_eq)

section \<open>Children and stagger\<close>

lemma animateChildren_loop_length:
  "length (animateChildren_loop e cs i l mk) = length cs"
  by (induction cs arbitrary: i) simp_all

lemma animateChildren_loop_nth:
  "j < length cs \<Longrightarrow>
     animateChildren_loop e cs i l mk ! j = animateVariant e (cs ! j) l (mk (i + j))"
proof (induction cs arbitrary: i j)
  case Nil
  then show ?case by simp
next
  case (Cons c cs)
  show ?case
  proof (cases j)
    case 0
    then show ?thesis by simp
  next
    case (Suc j')
    with Cons.prems have "j' < length cs" by simp
    from Cons.IH [OF this, of "i + 1"] Suc show ?thesis by simp
  qed
qed

lemma stagger_bounds:
  assumes i: "i < n" and dc: "\<bar>dc\<bar> \<le> pow2 1000" and s: "real n * \<bar>s\<bar> \<le> pow2 1000"
  shows "\<bar>generateStaggerDuration sd s n i\<bar> \<le> pow2 1001"
    and "\<bar>double_round (dc + generateStaggerDuration sd s n i)\<bar> \<le> pow2 1002"
proof -
  have k: "- 1074 \<le> (1000::int)" "- 1074 \<le> (1001::int)" by simp_all
  have "\<bar>real i * s\<bar> = real i * \<bar>s\<bar>" by (simp add: abs_mult)
  also have "\<dots> \<le> real n * \<bar>s\<bar>" using i by (intro mult_right_mono) simp_all
  finally have "\<bar>real i * s\<bar> \<le> pow2 1000" using s by linarith
  from double_round_bound [OF k(1) this]
  have a: "\<bar>double_round (real i * s)\<bar> \<le> pow2 1000" .
  from i have "\<bar>(real n - 1) * s\<bar> = (real n - 1) * \<bar>s\<bar>" by (simp add: abs_mult)
  also have "\<dots> \<le> real n * \<bar>s\<bar>" by (intro mult_right_mono) simp_all
  finally have "\<bar>(real n - 1) * s\<bar> \<le> pow2 1000" using s by linarith
  from double_round_bound [OF k(1) this]
  have m: "\<bar>double_round ((real n - 1) * s)\<bar> \<le> pow2 1000" .
  have le: "pow2 1000 \<le> pow2 1001" by (rule pow2_mono) simp
  have g: "\<bar>generateStaggerDuration sd s n i\<bar> \<le> pow2 1001"
  proof (cases "sd = 1")
    case True
    with a le show ?thesis by (simp add: generateStaggerDuration_def)
  next
    case False
    with double_round_sum_bound(2) [OF k(1) m a] show ?thesis
      by (simp add: generateStaggerDuration_def)
  qed
  from dc le have dc': "\<bar>dc\<bar> \<le> pow2 1001" by linarith
  from double_round_sum_bound(1) [OF k(2) dc' g]
  show "\<bar>double_round (dc + generateStaggerDuration sd s n i)\<bar> \<le> pow2 1002" by simp
  show "\<bar>generateStaggerDuration sd s n i\<bar> \<le> pow2 1001" by (rule g)
qed

lemma array_get_array_set:
  "array_get (array_set xs p v) i = (if i = p then v else array_get xs i)"
proof (cases "p < length xs")
  case True
  then show ?thesis by (auto simp: array_get_def array_set_def)
next
  case False
  then show ?thesis
    by (auto simp: array_get_def array_set_def nth_append)
qed

section \<open>Resolving variants\<close>

lemma animate_resolver_receives_undefined:
  "animate e c (Some (Resolver f)) opts = animate e c (Some (Static (f None))) opts"
  by (simp add: animate_def resolveVariant_def)

section \<open>The loop of an animation pass\<close>

lemma animate_key_other:
  assumes "key \<noteq> k"
  shows "map_of (vals (fst (animate_key e tgt tr dl prio key (c, acc)))) k = map_of (vals c) k"
    and "map_of (baseTarget (fst (animate_key e tgt tr dl prio key (c, acc)))) k = map_of (baseTarget c) k"
    and "k \<in> isAnimating (fst (animate_key e tgt tr dl prio key (c, acc))) \<longleftrightarrow> k \<in> isAnimating c"
  using assms
  by (auto simp: animate_key_def Let_def map_of_set_prop split: option.splits)

lemma animate_key_skip:
  "k \<in> isAnimating c \<Longrightarrow> animate_key e tgt tr dl prio k (c, acc) = (c, acc)"
  by (simp add: animate_key_def split: option.splits)

lemma animate_key_config:
  "props (fst (animate_key e tgt tr dl prio key (c, acc))) = props c"
  "variants (fst (animate_key e tgt tr dl prio key (c, acc))) = variants c"
  "overrides (fst (animate_key e tgt tr dl prio key (c, acc))) = overrides c"
  "defaultTransition (fst (animate_key e tgt tr dl prio key (c, acc))) = defaultTransition c"
  by (auto simp: animate_key_def Let_def split: option.splits)

lemma animate_key_acc:
  "set acc \<subseteq> set (snd (animate_key e tgt tr dl prio key (c, acc)))"
  by (auto simp: animate_key_def Let_def split: option.splits)

lemma animate_key_effect:
  assumes "map_of (vals c) k = Some v" and "k \<notin> isAnimating c" and "get_prop tgt k \<noteq> Undefined"
  shows "k \<in> isAnimating (fst (animate_key e tgt tr dl prio k (c, acc)))"
    and "prio = 0 \<Longrightarrow>
          map_of (baseTarget (fst (animate_key e tgt tr dl prio k (c, acc)))) k = Some (get_prop tgt k)"
    and "map_of (vals (fst (animate_key e tgt tr dl prio k (c, acc)))) k =
          Some (if isAnimatable e (get_prop tgt k)
                then v\<lparr>controlled := controlled v @
                        [\<lparr>cc_key = k, cc_to = get_prop tgt k, cc_config = with_delay dl tr\<rparr>]\<rparr>
                else v\<lparr>current := get_prop tgt k\<rparr>)"
    and "isAnimatable e (get_prop tgt k) \<Longrightarrow>
          (k, length (controlled v)) \<in> set (snd (animate_key e tgt tr dl prio k (c, acc)))"
  using assms
  by (auto simp: animate_key_def Let_def map_of_set_prop)

lemma animate_fold_frame:
  assumes "k \<notin> set ks \<or> k \<in> isAnimating c"
  shows "map_of (vals (fst (fold (animate_key e tgt tr dl prio) ks (c, acc)))) k = map_of (vals c) k
       \<and> map_of (baseTarget (fst (fold (animate_key e tgt tr dl prio) ks (c, acc)))) k
           = map_of (baseTarget c) k
       \<and> (k \<in> isAnimating (fst (fold (animate_key e tgt tr dl prio) ks (c, acc)))
           \<longleftrightarrow> k \<in> isAnimating c)"
  using assms
proof (induction ks arbitrary: c acc)
  case Nil
  then show ?case by simp
next
  case (Cons key ks)
  obtain c1 acc1 where step: "animate_key e tgt tr dl prio key (c, acc) = (c1, acc1)"
    by (cases "animate_key e tgt tr dl prio key (c, acc)")
  show ?case
  proof (cases "key = k")
    case True
    with Cons.prems have "k \<in> isAnimating c" by simp
    with True step have "c1 = c" by (simp add: animate_key_skip)
    with Cons.IH [where c=c and acc=acc1] \<open>k \<in> isAnimating c\<close> step show ?thesis by simp
  next
    case False
    from animate_key_other [OF False, where e=e and tgt=tgt and tr=tr and dl=dl and prio=prio and c=c and acc=acc] step
    have same: "map_of (vals c1) k = map_of (vals c) k"
      "map_of (baseTarget c1) k = map_of (baseTarget c) k"
      "k \<in> isAnimating c1 \<longleftrightarrow> k \<in> isAnimating c" by simp_all
    from Cons.prems False same have "k \<notin> set ks \<or> k \<in> isAnimating c1" by auto
    from Cons.IH [OF this, where acc=acc1] same step show ?thesis by simp
  qed
qed

lemma animate_fold_acc:
  "set acc \<subseteq> set (snd (fold (animate_key e tgt tr dl prio) ks (c, acc)))"
proof (induction ks arbitrary: c acc)
  case Nil
  then show ?case by simp
next
  case (Cons key ks)
  obtain c1 acc1 where step: "animate_key e tgt tr dl prio key (c, acc) = (c1, acc1)"
    by (cases "animate_key e tgt tr dl prio key (c, acc)")
  with animate_key_acc [where acc=acc and e=e and tgt=tgt and tr=tr and dl=dl and prio=prio and key=key and c=c] have "set acc \<subseteq> set acc1" by simp
  with Cons.IH [where c=c1 and acc=acc1] step show ?case by auto
qed

lemma animate_fold_config:
  "props (fst (fold (animate_key e tgt tr dl prio) ks (c, acc))) = props c
   \<and> variants (fst (fold (animate_key e tgt tr dl prio) ks (c, acc))) = variants c
   \<and> overrides (fst (fold (animate_key e tgt tr dl prio) ks (c, acc))) = overrides c
   \<and> defaultTransition (fst (fold (animate_key e tgt tr dl prio) ks (c, acc))) = defaultTransition c"
proof (induction ks arbitrary: c acc)
  case Nil
  then show ?case by simp
next
  case (Cons key ks)
  obtain c1 acc1 where step: "animate_key e tgt tr dl prio key (c, acc) = (c1, acc1)"
    by (cases "animate_key e tgt tr dl prio key (c, acc)")
  with animate_key_config [where e=e and tgt=tgt and tr=tr and dl=dl and prio=prio and key=key and c=c and acc=acc] Cons.IH [where c=c1 and acc=acc1]
  show ?case by simp
qed

lemma animate_fold_effect:
  assumes "k \<in> set ks" and "map_of (vals c) k = Some v" and "k \<notin> isAnimating c"
    and "get_prop tgt k \<noteq> Undefined"
  shows "k \<in> isAnimating (fst (fold (animate_key e tgt tr dl prio) ks (c, acc)))
       \<and> (prio = 0 \<longrightarrow>
            map_of (baseTarget (fst (fold (animate_key e tgt tr dl prio) ks (c, acc)))) k
              = Some (get_prop tgt k))
       \<and> map_of (vals (fst (fold (animate_key e tgt tr dl prio) ks (c, acc)))) k =
           Some (if isAnimatable e (get_prop tgt k)
                 then v\<lparr>controlled := controlled v @
                         [\<lparr>cc_key = k, cc_to = get_prop tgt k, cc_config = with_delay dl tr\<rparr>]\<rparr>
                 else v\<lparr>current := get_prop tgt k\<rparr>)
       \<and> (isAnimatable e (get_prop tgt k) \<longrightarrow>
            (k, length (controlled v)) \<in> set (snd (fold (animate_key e tgt tr dl prio) ks (c, acc))))"
  using assms
proof (induction ks arbitrary: c acc)
  case Nil
  then show ?case by simp
next
  case (Cons key ks)
  obtain c1 acc1 where step: "animate_key e tgt tr dl prio key (c, acc) = (c1, acc1)"
    by (cases "animate_key e tgt tr dl prio key (c, acc)")
  show ?case
  proof (cases "key = k")
    case True
    from animate_key_effect [OF Cons.prems(2,3,4), where e=e and tr=tr and dl=dl and prio=prio and acc=acc] step True
    have eff: "k \<in> isAnimating c1"
      "prio = 0 \<Longrightarrow> map_of (baseTarget c1) k = Some (get_prop tgt k)"
      "map_of (vals c1) k =
          Some (if isAnimatable e (get_prop tgt k)
                then v\<lparr>controlled := controlled v @
                        [\<lparr>cc_key = k, cc_to = get_prop tgt k, cc_config = with_delay dl tr\<rparr>]\<rparr>
                else v\<lparr>current := get_prop tgt k\<rparr>)"
      "isAnimatable e (get_prop tgt k) \<Longrightarrow> (k, length (controlled v)) \<in> set acc1"
      by simp_all
    from animate_fold_frame [where k=k and ks=ks and c=c1 and e=e and tgt=tgt and tr=tr and dl=dl and prio=prio and acc=acc1] eff(1)
    have fr: "map_of (vals (fst (fold (animate_key e tgt tr dl prio) ks (c1, acc1)))) k = map_of (vals c1) k"
      "map_of (baseTarget (fst (fold (animate_key e tgt tr dl prio) ks (c1, acc1)))) k
           = map_of (baseTarget c1) k"
      "k \<in> isAnimating (fst (fold (animate_key e tgt tr dl prio) ks (c1, acc1)))"
      by simp_all
    from animate_fold_acc [where acc=acc1 and e=e and tgt=tgt and tr=tr and dl=dl and prio=prio and ks=ks and c=c1] eff(4)
    have "isAnimatable e (get_prop tgt k) \<Longrightarrow>
        (k, length (controlled v)) \<in> set (snd (fold (animate_key e tgt tr dl prio) ks (c1, acc1)))"
      by auto
    moreover have "fold (animate_key e tgt tr dl prio) (key # ks) (c, acc) =
        fold (animate_key e tgt tr dl prio) ks (c1, acc1)"
      using step by simp
    ultimately show ?thesis using fr eff by (simp only:) simp
  next
    case False
    from animate_key_other [OF False, where e=e and tgt=tgt and tr=tr and dl=dl and prio=prio and c=c and acc=acc] step
    have same: "map_of (vals c1) k = map_of (vals c) k"
      "k \<in> isAnimating c1 \<longleftrightarrow> k \<in> isAnimating c" by simp_all
    from Cons.prems False have "k \<in> set ks" by simp
    moreover from same Cons.prems(2,3) have "map_of (vals c1) k = Some v" "k \<notin> isAnimating c1"
      by simp_all
    ultimately have ih: "k \<in> isAnimating (fst (fold (animate_key e tgt tr dl prio) ks (c1, acc1)))
       \<and> (prio = 0 \<longrightarrow>
            map_of (baseTarget (fst (fold (animate_key e tgt tr dl prio) ks (c1, acc1)))) k
              = Some (get_prop tgt k))
       \<and> map_of (vals (fst (fold (animate_key e tgt tr dl prio) ks (c1, acc1)))) k =
           Some (if isAnimatable e (get_prop tgt k)
                 then v\<lparr>controlled := controlled v @
                         [\<lparr>cc_key = k, cc_to = get_prop tgt k, cc_config = with_delay dl tr\<rparr>]\<rparr>
                 else v\<lparr>current := get_prop tgt k\<rparr>)
       \<and> (isAnimatable e (get_prop tgt k) \<longrightarrow>
            (k, length (controlled v)) \<in> set (snd (fold (animate_key e tgt tr dl prio) ks (c1, acc1))))"
      using Cons.prems(4) by (rule Cons.IH)
    have eq: "fold (animate_key e tgt tr dl prio) (key # ks) (c, acc) =
        fold (animate_key e tgt tr dl prio) ks (c1, acc1)"
      using step by simp
    show ?thesis unfolding eq by (rule ih)
  qed
qed

lemma seed_fold:
  "fold (\<lambda>key c'. let domValue = styler_get e key
                 in c'\<lparr>vals := set_prop (vals c') key (motionValue domValue),
                       baseTarget := set_prop (baseTarget c') key domValue\<rparr>) ks c
     = c\<lparr>vals := fold (\<lambda>key vs. set_prop vs key (motionValue (styler_get e key))) ks (vals c),
         baseTarget := fold (\<lambda>key b. set_prop b key (styler_get e key)) ks (baseTarget c)\<rparr>"
  by (induction ks arbitrary: c) (simp_all add: Let_def)

lemma map_of_fold_set_prop:
  "map_of (fold (\<lambda>key vs. set_prop vs key (g key)) ks vs) k =
     (if k \<in> set ks then Some (g k) else map_of vs k)"
  by (induction ks arbitrary: vs) (auto simp: map_of_set_prop)

lemma checkForNewValues_eq:
  "checkForNewValues e c tgt =
     c\<lparr>vals := fold (\<lambda>key vs. set_prop vs key (motionValue (styler_get e key)))
                  (filter (\<lambda>key. map_of (vals c) key = None) (keys tgt)) (vals c),
       baseTarget := fold (\<lambda>key b. set_prop b key (styler_get e key))
                       (filter (\<lambda>key. map_of (vals c) key = None) (keys tgt)) (baseTarget c)\<rparr>"
  using seed_fold [of e "filter (\<lambda>key. map_of (vals c) key = None) (keys tgt)" c]
  by (auto simp: checkForNewValues_def Let_def)

lemma checkForNewValues_vals:
  "map_of (vals (checkForNewValues e c tgt)) k =
     (if k \<in> set (keys tgt) \<and> map_of (vals c) k = None
      then Some (motionValue (styler_get e k)) else map_of (vals c) k)"
  by (simp add: checkForNewValues_eq map_of_fold_set_prop)

lemma checkForNewValues_baseTarget:
  "map_of (baseTarget (checkForNewValues e c tgt)) k =
     (if k \<in> set (keys tgt) \<and> map_of (vals c) k = None
      then Some (styler_get e k) else map_of (baseTarget c) k)"
  by (simp add: checkForNewValues_eq map_of_fold_set_prop)

lemma checkForNewValues_other:
  "isAnimating (checkForNewValues e c tgt) = isAnimating c"
  "overrides (checkForNewValues e c tgt) = overrides c"
  "variants (checkForNewValues e c tgt) = variants c"
  "props (checkForNewValues e c tgt) = props c"
  "defaultTransition (checkForNewValues e c tgt) = defaultTransition c"
  by (simp_all add: checkForNewValues_eq)

lemma checkForNewValues_vals_cong:
  "vals c = vals c' \<Longrightarrow> vals (checkForNewValues e c tgt) = vals (checkForNewValues e c' tgt)"
  by (simp add: checkForNewValues_eq)

lemma animate_run:
  assumes "target (resolveVariant (Some v) None) = Some tgt"
    and "unitConversion e (vals (checkForNewValues e c tgt)) tgt
           (transitionEnd (resolveVariant (Some v) None)) = (tgt', te')"
  shows "animate e c (Some v) opts =
    (fst (fold (animate_key e tgt'
                 (case transition (resolveVariant (Some v) None) of
                    None \<Rightarrow> defaultTransition c | Some t \<Rightarrow> Some t)
                 (case delay opts of None \<Rightarrow> 0 | Some d \<Rightarrow> d)
                 (case priority opts of None \<Rightarrow> 0 | Some p \<Rightarrow> p))
            (keys tgt') (checkForNewValues e c tgt, [])),
     Then (PromiseAll (map (\<lambda>(k, n). Await k n)
        (snd (fold (animate_key e tgt'
                 (case transition (resolveVariant (Some v) None) of
                    None \<Rightarrow> defaultTransition c | Some t \<Rightarrow> Some t)
                 (case delay opts of None \<Rightarrow> 0 | Some d \<Rightarrow> d)
                 (case priority opts of None \<Rightarrow> 0 | Some p \<Rightarrow> p))
            (keys tgt') (checkForNewValues e c tgt, [])))))
       (SetTransitionEnd te'))"
  using assms by (simp add: animate_def Let_def checkForNewValues_other cong: option.case_cong)

lemma animate_absent: "animate e c None opts = (c, Resolved)"
  by (simp add: animate_def resolveVariant_def)

lemma animate_effect:
  assumes tgt: "target (resolveVariant (Some v) None) = Some tgt"
    and conv: "unitConversion e (vals (checkForNewValues e c tgt)) tgt
           (transitionEnd (resolveVariant (Some v) None)) = (tgt', te')"
    and k: "k \<in> set (keys tgt')" "k \<notin> isAnimating c" "get_prop tgt' k \<noteq> Undefined"
    and mv: "map_of (vals (checkForNewValues e c tgt)) k = Some mv"
  shows "k \<in> isAnimating (fst (animate e c (Some v) opts))
     \<and> ((case priority opts of None \<Rightarrow> 0 | Some p \<Rightarrow> p) = 0 \<longrightarrow>
          map_of (baseTarget (fst (animate e c (Some v) opts))) k = Some (get_prop tgt' k))
     \<and> map_of (vals (fst (animate e c (Some v) opts))) k =
           Some (if isAnimatable e (get_prop tgt' k)
                 then mv\<lparr>controlled := controlled mv @
                         [\<lparr>cc_key = k, cc_to = get_prop tgt' k,
                           cc_config = with_delay (case delay opts of None \<Rightarrow> 0 | Some d \<Rightarrow> d)
                             (case transition (resolveVariant (Some v) None) of
                                None \<Rightarrow> defaultTransition c | Some t \<Rightarrow> Some t)\<rparr>]\<rparr>
                 else mv\<lparr>current := get_prop tgt' k\<rparr>)"
proof -
  have na: "k \<notin> isAnimating (checkForNewValues e c tgt)"
    using k(2) by (simp add: checkForNewValues_other)
  show ?thesis
    unfolding animate_run [OF tgt conv] fst_conv
    using animate_fold_effect [OF k(1) mv na k(3)] by blast
qed

lemma animate_config:
  "props (fst (animate e c d opts)) = props c
   \<and> variants (fst (animate e c d opts)) = variants c
   \<and> overrides (fst (animate e c d opts)) = overrides c
   \<and> defaultTransition (fst (animate e c d opts)) = defaultTransition c"
  by (simp add: animate_def Let_def animate_fold_config checkForNewValues_other
        split: option.splits)

lemma own_resetIsAnimating: "own (resetIsAnimating c) = (own c)\<lparr>isAnimating := {}\<rparr>"
  by (cases c) simp

lemma children_resetIsAnimating:
  "children (resetIsAnimating c) = map_option (map resetIsAnimating) (children c)"
  by (cases c) simp

lemma isHighestPriority_setPriorityAnimation:
  "isHighestPriority (setPriorityAnimation f d p) p = isHighestPriority f p"
proof -
  have "array_get (array_set (overrides f) p (Some d)) i = array_get (overrides f) i" if "p < i" for i
    using that by (simp add: array_get_array_set)
  then show ?thesis
    unfolding isHighestPriority_occupied by (simp add: setPriorityAnimation_def)
qed

section \<open>Direct assignment and the settling of promises\<close>




lemma setValues_key_config:
  "props (fst (setValues_key tgt key st)) = props (fst st)"
  "variants (fst (setValues_key tgt key st)) = variants (fst st)"
  "overrides (fst (setValues_key tgt key st)) = overrides (fst st)"
  "defaultTransition (fst (setValues_key tgt key st)) = defaultTransition (fst st)"
  "isAnimating (fst (setValues_key tgt key st)) = isAnimating (fst st)"
  by (auto simp: setValues_key_def Let_def split: prod.splits option.splits)







section \<open>Labels without a variant\<close>


lemma own_animateChildren: "own (fst (animateChildren e c l dc sc sd prio)) = own c"
proof (cases c)
  case (Controls f ch)
  then show ?thesis by (cases ch) (simp_all add: Let_def)
qed





section \<open>Restarting and configuration\<close>






lemma animateVariant_config:
  "props (own (fst (animateVariant e c l opts))) = props (own c)
   \<and> variants (own (fst (animateVariant e c l opts))) = variants (own c)
   \<and> overrides (own (fst (animateVariant e c l opts))) = overrides (own c)
   \<and> defaultTransition (own (fst (animateVariant e c l opts))) = defaultTransition (own c)"
proof -
  obtain f ch where c: "c = Controls f ch" by (cases c)
  have g: "props (fst (getAnimations e f v opts)) = props f
   \<and> variants (fst (getAnimations e f v opts)) = variants f
   \<and> overrides (fst (getAnimations e f v opts)) = overrides f
   \<and> defaultTransition (fst (getAnimations e f v opts)) = defaultTransition f" for v
    by (cases v) (simp_all add: getAnimations_def animate_config)
  show ?thesis
    unfolding c by (simp add: Let_def own_animateChildren g)
qed

lemma animateVariantLabels_fold_config:
  "props (own (fst (fold (\<lambda>label (c', ts).
                  let r = animateVariant e c' label opts in (fst r, ts @ [snd r])) ls (c, ts0))))
     = props (own c)
   \<and> variants (own (fst (fold (\<lambda>label (c', ts).
                  let r = animateVariant e c' label opts in (fst r, ts @ [snd r])) ls (c, ts0))))
     = variants (own c)
   \<and> overrides (own (fst (fold (\<lambda>label (c', ts).
                  let r = animateVariant e c' label opts in (fst r, ts @ [snd r])) ls (c, ts0))))
     = overrides (own c)
   \<and> defaultTransition (own (fst (fold (\<lambda>label (c', ts).
                  let r = animateVariant e c' label opts in (fst r, ts @ [snd r])) ls (c, ts0))))
     = defaultTransition (own c)"
proof (induction ls arbitrary: c ts0)
  case Nil
  then show ?case by simp
next
  case (Cons l ls)
  have eq: "fold (\<lambda>label (c', ts).
                  let r = animateVariant e c' label opts in (fst r, ts @ [snd r])) (l # ls) (c, ts0)
      = fold (\<lambda>label (c', ts).
                  let r = animateVariant e c' label opts in (fst r, ts @ [snd r])) ls
          (fst (animateVariant e c l opts), ts0 @ [snd (animateVariant e c l opts)])"
    by (simp add: Let_def)
  show ?case
    unfolding eq using Cons.IH [of "fst (animateVariant e c l opts)"] animateVariant_config [of e c l opts]
    by simp
qed

lemma start_config:
  "props (own (fst (start e c d opts))) = props (own c)
   \<and> variants (own (fst (start e c d opts))) = variants (own c)
   \<and> overrides (own (fst (start e c d opts))) =
       array_set (overrides (own c)) (case priority opts of None \<Rightarrow> 0 | Some p \<Rightarrow> p) (Some d)
   \<and> defaultTransition (own (fst (start e c d opts))) = defaultTransition (own c)"
proof -
  let ?c1 = "Controls (setPriorityAnimation (own c) d
                         (case priority opts of None \<Rightarrow> 0 | Some p \<Rightarrow> p)) (children c)"
  let ?c2 = "resetIsAnimating ?c1"
  have c2: "props (own ?c2) = props (own c)" "variants (own ?c2) = variants (own c)"
    "overrides (own ?c2) =
       array_set (overrides (own c)) (case priority opts of None \<Rightarrow> 0 | Some p \<Rightarrow> p) (Some d)"
    "defaultTransition (own ?c2) = defaultTransition (own c)"
    by (simp_all add: own_resetIsAnimating setPriorityAnimation_def)
  show ?thesis
  proof (cases "case priority opts of None \<Rightarrow> False | Some p \<Rightarrow> \<not> isHighestPriority (own ?c1) p")
    case True
    then have "start e c d opts = (?c1, Resolved)"
      by (simp add: start_def Let_def)
    then show ?thesis by (simp add: setPriorityAnimation_def)
  next
    case False
    then have run0: "start e c d opts =
        (case d of
           LabelList ls \<Rightarrow> animateVariantLabels e ?c2 ls opts
         | Label l \<Rightarrow> animateVariant e ?c2 l opts
         | Def v \<Rightarrow> (let r = animate e (own ?c2) (Some v) opts
                      in (Controls (fst r) (children ?c2), snd r)))"
      unfolding start_def Let_def by (simp only: if_False)
    show ?thesis
    proof (cases d)
      case (Def v)
      with run0 have run: "start e c d opts =
          (Controls (fst (animate e (own ?c2) (Some v) opts)) (children ?c2),
           snd (animate e (own ?c2) (Some v) opts))" by (simp add: Let_def)
      show ?thesis unfolding run using animate_config [of e "own ?c2" "Some v" opts] c2 by simp
    next
      case (Label l)
      with run0 have run: "start e c d opts = animateVariant e ?c2 l opts" by simp
      show ?thesis unfolding run using animateVariant_config [of e ?c2 l opts] c2 by simp
    next
      case (LabelList ls)
      with run0 have run: "start e c d opts = animateVariantLabels e ?c2 ls opts" by simp
      show ?thesis
        unfolding run animateVariantLabels_def
        using animateVariantLabels_fold_config [of e opts "rev ls" ?c2 "[]"] c2
        by (simp add: Let_def)
    qed
  qed
qed



lemma animateVariant_own_pass:
  assumes "map_of (variants f) l = Some v"
    and "o_beforeChildren (orchestrate (Some v) (ch \<noteq> None))
         \<or> \<not> o_afterChildren (orchestrate (Some v) (ch \<noteq> None))"
  shows "own (fst (animateVariant e (Controls f ch) l opts)) = fst (animate e f (Some v) opts)"
  using assms by (auto simp: Let_def getAnimations_def own_animateChildren)



section \<open>Keys that are already animating\<close>

lemma animate_keeps:
  assumes "k \<in> isAnimating f" and "map_of (vals f) k \<noteq> None"
  shows "k \<in> isAnimating (fst (animate e f d opts))
       \<and> map_of (vals (fst (animate e f d opts))) k = map_of (vals f) k
       \<and> map_of (baseTarget (fst (animate e f d opts))) k = map_of (baseTarget f) k"
proof (cases d)
  case None
  then show ?thesis using assms by (simp add: animate_absent)
next
  case (Some v)
  obtain tgt where tgt: "target (resolveVariant (Some v) None) = Some tgt"
    by (simp add: resolveVariant_def Let_def)
  obtain tgt' te' where conv: "unitConversion e (vals (checkForNewValues e f tgt)) tgt
           (transitionEnd (resolveVariant (Some v) None)) = (tgt', te')"
    by (cases "unitConversion e (vals (checkForNewValues e f tgt)) tgt
           (transitionEnd (resolveVariant (Some v) None))")
  have "k \<in> isAnimating (checkForNewValues e f tgt)"
    using assms(1) by (simp add: checkForNewValues_other)
  then have "k \<notin> set (keys tgt') \<or> k \<in> isAnimating (checkForNewValues e f tgt)" by simp
  from animate_fold_frame [OF this] assms show ?thesis
    unfolding Some animate_run [OF tgt conv] fst_conv
    by (simp add: checkForNewValues_vals checkForNewValues_baseTarget checkForNewValues_other)
qed

lemma animateVariant_own_cases:
  "own (fst (animateVariant e (Controls f ch) l opts)) = f
   \<or> own (fst (animateVariant e (Controls f ch) l opts))
       = fst (animate e f (map_of (variants f) l) opts)"
  by (cases "map_of (variants f) l")
     (auto simp: Let_def getAnimations_def own_animateChildren)

lemma animateVariant_keeps:
  assumes "k \<in> isAnimating (own c)" and "map_of (vals (own c)) k \<noteq> None"
  shows "k \<in> isAnimating (own (fst (animateVariant e c l opts)))
       \<and> map_of (vals (own (fst (animateVariant e c l opts)))) k = map_of (vals (own c)) k
       \<and> map_of (baseTarget (own (fst (animateVariant e c l opts)))) k
           = map_of (baseTarget (own c)) k"
proof -
  obtain f ch where c: "c = Controls f ch" by (cases c)
  from animateVariant_own_cases [of e f ch l opts]
       animate_keeps [of k f e "map_of (variants f) l" opts] assms
  show ?thesis unfolding c by auto
qed

lemma animateVariantLabels_fold_keeps:
  assumes "k \<in> isAnimating (own c)" and "map_of (vals (own c)) k \<noteq> None"
  shows "map_of (baseTarget (own (fst (fold (\<lambda>label (c', ts).
                  let r = animateVariant e c' label opts in (fst r, ts @ [snd r])) ls (c, ts0))))) k
           = map_of (baseTarget (own c)) k"
  using assms
proof (induction ls arbitrary: c ts0)
  case Nil
  then show ?case by simp
next
  case (Cons l ls)
  let ?r = "animateVariant e c l opts"
  have eq: "fold (\<lambda>label (c', ts).
                  let r = animateVariant e c' label opts in (fst r, ts @ [snd r])) (l # ls) (c, ts0)
      = fold (\<lambda>label (c', ts).
                  let r = animateVariant e c' label opts in (fst r, ts @ [snd r])) ls
          (fst ?r, ts0 @ [snd ?r])"
    by (simp add: Let_def)
  from animateVariant_keeps [OF Cons.prems, of e l opts]
  have keep: "k \<in> isAnimating (own (fst ?r))" "map_of (vals (own (fst ?r))) k \<noteq> None"
    "map_of (baseTarget (own (fst ?r))) k = map_of (baseTarget (own c)) k"
    using Cons.prems(2) by simp_all
  from Cons.IH [OF keep(1,2), of "ts0 @ [snd ?r]"] keep(3) show ?case
    unfolding eq by simp
qed

section \<open>Verified claims\<close>

text \<open>
  Claim C1, as amended. A call \<open>start(definition, opts)\<close> that names its priority \<open>p\<close>,
  on a controller with an occupied slot above \<open>p\<close>, records the definition at \<open>p\<close> and
  returns an already resolved completion; the tracked values, the base target, the
  \<open>isAnimating\<close> set and the children are as before.
\<close>

theorem start_deferred:
  assumes "priority opts = Some p" and "p < i" and "array_get (overrides (own c)) i \<noteq> None"
  shows "start e c d opts =
           (Controls ((own c)\<lparr>overrides := array_set (overrides (own c)) p (Some d)\<rparr>) (children c),
            Resolved)
         \<and> array_get (overrides (own (fst (start e c d opts)))) p = Some d
         \<and> vals (own (fst (start e c d opts))) = vals (own c)
         \<and> baseTarget (own (fst (start e c d opts))) = baseTarget (own c)
         \<and> isAnimating (own (fst (start e c d opts))) = isAnimating (own c)
         \<and> children (fst (start e c d opts)) = children c"
proof -
  let ?c1 = "Controls (setPriorityAnimation (own c) d p) (children c)"
  have "array_get (overrides (own ?c1)) i \<noteq> None"
    using assms(2,3) by (simp add: setPriorityAnimation_def array_get_array_set)
  with assms(2) have "\<not> isHighestPriority (own ?c1) p"
    by (auto simp: isHighestPriority_occupied)
  then have "start e c d opts = (?c1, Resolved)"
    using assms(1) by (simp add: start_def Let_def)
  then show ?thesis
    by (simp add: setPriorityAnimation_def array_get_array_set)
qed

theorem start_deferred_witness:
  "array_get (overrides (own ex_busy)) 1 \<noteq> None \<and>
   start ex_env ex_busy (Label ''gone'') \<lparr>delay = None, priority = Some 0\<rparr> =
     (Controls ((own ex_busy)\<lparr>overrides := [Some (Label ''gone''), Some (Label ''hover'')]\<rparr>) None,
      Resolved)"
proof -
  have occ: "array_get (overrides (own ex_busy)) 1 \<noteq> None"
    by (simp add: ex_busy_def array_get_def)
  have p: "priority \<lparr>delay = None, priority = Some 0\<rparr> = Some 0" by simp
  from start_deferred [OF p _ occ, of ex_env "Label ''gone''"] occ show ?thesis
    by (simp add: ex_busy_def array_set_def)
qed

text \<open>
  The claim as first stated covers every call, also one that leaves the priority out.
  Such a call is a request at priority 0, yet it is not held back by the hover
  override at priority 1: it sets \<open>display\<close>, replaces the \<open>isAnimating\<close> set and returns
  a completion with a callback still to run.
\<close>

theorem start_default_priority_counterexample:
  "array_get (overrides (own ex_busy)) 1 \<noteq> None \<and>
   priority noOptions = None \<and>
   map_of (vals (own (fst (start ex_env ex_busy (Label ''gone'') noOptions)))) ''display''
     = Some \<lparr>current = Str ''none'', controlled = []\<rparr> \<and>
   map_of (vals (own ex_busy)) ''display'' = Some \<lparr>current = Str ''block'', controlled = []\<rparr> \<and>
   isAnimating (own (fst (start ex_env ex_busy (Label ''gone'') noOptions))) = {''display''} \<and>
   isAnimating (own ex_busy) = {''opacity''} \<and>
   snd (start ex_env ex_busy (Label ''gone'') noOptions) \<noteq> Resolved"
  by (simp add: ex_busy_def ex_fade_def start_def noOptions_def setPriorityAnimation_def
        array_set_def array_get_def newControls_def motionValue_def ex_env_def orchestrate_def
        getAnimations_def animate_def resolveVariant_def checkForNewValues_def keys_def
        animate_key_def get_prop_def set_prop_def isAnimatable_def Let_def)




text \<open>
  Claim C3 asks that animating a resolver function invokes it with the controller's
  current props. \<open>animate\<close> calls \<open>resolveVariant\<close> with the variant alone, so the
  resolver receives \<open>undefined\<close>: with props 100 the resolver below yields the target
  \<open>x = 0\<close>, where \<open>applyVariantLabels\<close>, which passes the props, yields \<open>x = 100\<close>.
\<close>

theorem animate_resolver_props_undefined:
  "props (own ex_props) = Some 100 \<and>
   map_of (vals (own (fst (start ex_env ex_props (Def ex_resolver) noOptions)))) ''x'' =
     Some \<lparr>current = Num 0,
           controlled = [\<lparr>cc_key = ''x'', cc_to = Num 0, cc_config = with_delay 0 None\<rparr>]\<rparr> \<and>
   baseTarget (own (fst (start ex_env ex_props (Def ex_resolver) noOptions))) = [(''x'', Num 0)] \<and>
   baseTarget (applyVariantLabels (own ex_props) [''shift'']) = [(''x'', Num 100)]"
  by (simp add: ex_props_def ex_resolver_def start_def noOptions_def setPriorityAnimation_def
        array_set_def newControls_def motionValue_def ex_env_def 
        animate_def resolveVariant_def checkForNewValues_def keys_def
        animate_key_def get_prop_def set_prop_def isAnimatable_def Let_def
        applyVariantLabels_def setValues_def setValues_key_def)

text \<open>
  Claim C4, as amended. For a registry of \<open>N\<close> children, a stagger \<open>s\<close> and operands in
  range, \<open>animateChildren\<close> animates the child at registration index \<open>i\<close> with the
  shared priority and with the delay \<open>delayChildren + i * s\<close> when \<open>staggerDirection\<close> is
  1, and \<open>delayChildren + ((N - 1) * s - i * s)\<close> otherwise, every operation rounded to a
  double; no operation overflows. The reversed delay of the first child is the forward
  delay of the last, and the reversed delay of the last child is the forward delay of
  the first. The reversed delay of child \<open>i\<close> is the forward delay of child \<open>N - 1 - i\<close>
  whenever the products \<open>(N - 1) * s\<close> and \<open>i * s\<close> are exact.
\<close>

theorem stagger_delays:
  assumes i: "i < length cs"
    and dc: "\<bar>dc\<bar> \<le> pow2 1000"
    and s: "real (length cs) * \<bar>s\<bar> \<le> pow2 1000"
  shows "\<exists>cs' ts.
           animateChildren e (Controls f (Some cs)) l dc s sd prio = (Controls f (Some cs'), PromiseAll ts)
         \<and> length cs' = length cs \<and> length ts = length cs
         \<and> cs' ! i = fst (animateVariant e (cs ! i) l (childOptions dc s sd prio (length cs) i))
         \<and> ts ! i = InChild i (snd (animateVariant e (cs ! i) l (childOptions dc s sd prio (length cs) i)))
         \<and> priority (childOptions dc s sd prio (length cs) i) = Some prio
         \<and> delay (childOptions dc s sd prio (length cs) i) =
             Some (if sd = 1 then double_round (dc + double_round (real i * s))
                   else double_round (dc + double_round
                          (double_round ((real (length cs) - 1) * s) - double_round (real i * s))))
         \<and> (case delay (childOptions dc s sd prio (length cs) i) of
              Some d \<Rightarrow> \<bar>d\<bar> \<le> pow2 1002 | None \<Rightarrow> False)
         \<and> (sd \<noteq> 1 \<longrightarrow>
                delay (childOptions dc s sd prio (length cs) 0)
                  = delay (childOptions dc s 1 prio (length cs) (length cs - 1))
              \<and> delay (childOptions dc s sd prio (length cs) (length cs - 1))
                  = delay (childOptions dc s 1 prio (length cs) 0)
              \<and> (double_round ((real (length cs) - 1) * s) = (real (length cs) - 1) * s
                   \<and> double_round (real i * s) = real i * s
                 \<longrightarrow> delay (childOptions dc s sd prio (length cs) i)
                       = delay (childOptions dc s 1 prio (length cs) (length cs - 1 - i))))"
proof -
  let ?rs = "animateChildren_loop e cs 0 l (childOptions dc s sd prio (length cs))"
  let ?ts = "map (\<lambda>(i, r). InChild i (snd r)) (enumerate 0 ?rs)"
  have run: "animateChildren e (Controls f (Some cs)) l dc s sd prio =
      (Controls f (Some (map fst ?rs)), PromiseAll ?ts)"
    by (simp add: Let_def)
  have len: "length ?rs = length cs" by (rule animateChildren_loop_length)
  have nth: "?rs ! i = animateVariant e (cs ! i) l (childOptions dc s sd prio (length cs) i)"
    using animateChildren_loop_nth [OF i, of e 0] by simp
  have c: "map fst ?rs ! i = fst (animateVariant e (cs ! i) l (childOptions dc s sd prio (length cs) i))"
    using i len nth by simp
  have t: "?ts ! i = InChild i (snd (animateVariant e (cs ! i) l (childOptions dc s sd prio (length cs) i)))"
    using i len nth by (simp add: nth_enumerate_eq)
  have p: "priority (childOptions dc s sd prio (length cs) i) = Some prio"
    by (simp add: childOptions_def)
  have d: "delay (childOptions dc s sd prio (length cs) i) =
             Some (if sd = 1 then double_round (dc + double_round (real i * s))
                   else double_round (dc + double_round
                          (double_round ((real (length cs) - 1) * s) - double_round (real i * s))))"
    by (simp add: childOptions_def generateStaggerDuration_def)
  have b: "case delay (childOptions dc s sd prio (length cs) i) of
              Some d \<Rightarrow> \<bar>d\<bar> \<le> pow2 1002 | None \<Rightarrow> False"
    using stagger_bounds(2) [OF i dc s, of sd] by (simp add: childOptions_def)
  have last: "real (length cs - Suc 0) = real (length cs) - 1"
    using i by (simp add: of_nat_diff)
  have mid: "real (length cs - 1 - i) = real (length cs) - 1 - real i"
    using i by (simp add: of_nat_diff)
  have e0: "delay (childOptions dc s sd prio (length cs) 0)
                  = delay (childOptions dc s 1 prio (length cs) (length cs - 1))" if "sd \<noteq> 1"
    using that by (simp add: childOptions_def generateStaggerDuration_def last double_round_idem)
  have e1: "delay (childOptions dc s sd prio (length cs) (length cs - 1))
                  = delay (childOptions dc s 1 prio (length cs) 0)" if "sd \<noteq> 1"
    using that by (simp add: childOptions_def generateStaggerDuration_def last)
  have sym: "delay (childOptions dc s sd prio (length cs) i)
                       = delay (childOptions dc s 1 prio (length cs) (length cs - 1 - i))"
    if "sd \<noteq> 1" and "double_round ((real (length cs) - 1) * s) = (real (length cs) - 1) * s"
      and "double_round (real i * s) = real i * s"
  proof -
    have "(real (length cs) - 1) * s - real i * s = real (length cs - 1 - i) * s"
      unfolding mid by (simp add: algebra_simps)
    with that show ?thesis
      by (simp add: childOptions_def generateStaggerDuration_def)
  qed
  from run len c t d b p e0 e1 sym show ?thesis
    by (intro exI [of _ "map fst ?rs"] exI [of _ ?ts]) simp
qed

theorem stagger_delays_witness:
  "delay (childOptions (1/2) (1/4) (-1) 0 3 0) = Some 1 \<and>
   delay (childOptions (1/2) (1/4) 1 0 3 2) = Some 1 \<and>
   delay (childOptions (1/2) (1/4) (-1) 0 3 2) = Some (1/2) \<and>
   delay (childOptions (1/2) (1/4) 1 0 3 0) = Some (1/2) \<and>
   (\<exists>cs' ts. animateChildren ex_env ex_parent ''show'' (1/2) (1/4) (-1) 0
                = (Controls (newControls []) (Some cs'), PromiseAll ts) \<and>
      map_of (vals (own (cs' ! 0))) ''opacity'' =
        Some \<lparr>current = Num 0,
              controlled = [\<lparr>cc_key = ''opacity'', cc_to = Num 1,
                               cc_config = with_delay 1 None\<rparr>]\<rparr>)"
proof -
  let ?cs = "[ex_child, ex_child, ex_child]"
  have i: "0 < length ?cs" by simp
  have len: "length ?cs = 3" by simp
  have dc: "\<bar>1/2 :: real\<bar> \<le> pow2 1000" by (simp add: pow2_def)
  have s: "real (length ?cs) * \<bar>1/4 :: real\<bar> \<le> pow2 1000"
    by (simp add: pow2_def)
  have rev: "(- 1 :: real) \<noteq> 1" by simp
  have exact: "double_round ((real (length ?cs) - 1) * (1/4)) = (real (length ?cs) - 1) * (1/4)
    \<and> double_round (real 0 * (1/4)) = real 0 * (1/4)"
    by (simp add: double_round_half)
  have child: "fst (animateVariant ex_env ex_child ''show'' \<lparr>delay = Some 1, priority = Some 0\<rparr>) =
      Controls ((newControls [(''opacity'',
          \<lparr>current = Num 0, controlled = [\<lparr>cc_key = ''opacity'', cc_to = Num 1,
                               cc_config = with_delay 1 None\<rparr>]\<rparr>)])
        \<lparr>variants := [(''show'', Static \<lparr>vo_target = [(''opacity'', Num 1)],
                          vo_transition = None, vo_transitionEnd = None\<rparr>)],
         baseTarget := [(''opacity'', Num 1)], isAnimating := {''opacity''}\<rparr>) None"
    by (simp add: ex_child_def ex_env_def newControls_def motionValue_def orchestrate_def
          getAnimations_def animate_def resolveVariant_def checkForNewValues_def keys_def
          animate_key_def get_prop_def set_prop_def isAnimatable_def Let_def)
  have d2: "delay (childOptions (1/2) (1/4) 1 0 3 2) = Some 1"
    by (simp add: childOptions_def generateStaggerDuration_def double_round_half double_round_one)
  have d4: "delay (childOptions (1/2) (1/4) 1 0 3 0) = Some (1/2)"
    by (simp add: childOptions_def generateStaggerDuration_def double_round_half)
  from stagger_delays [OF i dc s, of ex_env "newControls []" "''show''" "- 1" 0] rev exact
  obtain cs' ts where
    run: "animateChildren ex_env (Controls (newControls []) (Some ?cs)) ''show'' (1/2) (1/4) (- 1) 0
       = (Controls (newControls []) (Some cs'), PromiseAll ts)"
    and first: "cs' ! 0 = fst (animateVariant ex_env (?cs ! 0) ''show''
                   (childOptions (1/2) (1/4) (- 1) 0 (length ?cs) 0))"
    and e0: "delay (childOptions (1/2) (1/4) (- 1) 0 (length ?cs) 0)
               = delay (childOptions (1/2) (1/4) 1 0 (length ?cs) (length ?cs - 1))"
    and e1: "delay (childOptions (1/2) (1/4) (- 1) 0 (length ?cs) (length ?cs - 1))
               = delay (childOptions (1/2) (1/4) 1 0 (length ?cs) 0)"
    by blast
  from e0 d2 have d1: "delay (childOptions (1/2) (1/4) (- 1) 0 3 0) = Some 1"
    by (simp only: len) simp
  from e1 d4 have d3: "delay (childOptions (1/2) (1/4) (- 1) 0 3 2) = Some (1/2)"
    by (simp only: len) simp
  from d1 have o: "childOptions (1/2) (1/4) (- 1) 0 (length ?cs) 0 = \<lparr>delay = Some 1, priority = Some 0\<rparr>"
    unfolding len by (simp add: childOptions_def)
  from first have "map_of (vals (own (cs' ! 0))) ''opacity'' =
        Some \<lparr>current = Num 0,
              controlled = [\<lparr>cc_key = ''opacity'', cc_to = Num 1,
                               cc_config = with_delay 1 None\<rparr>]\<rparr>"
    unfolding o by (simp add: child newControls_def)
  with run d1 d2 d3 d4 show ?thesis
    unfolding ex_parent_def by blast
qed

text \<open>
  The claim as first stated has the reversed delay of child \<open>i\<close> equal to the forward
  delay of child \<open>N - 1 - i\<close> for every \<open>i\<close>. With four children, the stagger \<open>0.1\<close> and no
  \<open>delayChildren\<close>, the reversed delay of child 1 is \<open>0.30000000000000004 - 0.1\<close>, which
  is \<open>0.20000000000000004\<close>, and the forward delay of child 2 is \<open>0.2\<close>: the product
  \<open>3 * 0.1\<close> is rounded up.
\<close>

theorem stagger_symmetry_counterexample:
  "double_round (1 / 10) = ex_tenth \<and> ex_tenth = 3602879701896397 / 2 ^ 55 \<and>
   delay (childOptions 0 ex_tenth (- 1) 0 4 1) = Some (7205759403792795 / 2 ^ 55) \<and>
   delay (childOptions 0 ex_tenth 1 0 4 2) = Some (7205759403792794 / 2 ^ 55) \<and>
   delay (childOptions 0 ex_tenth (- 1) 0 4 1) \<noteq> delay (childOptions 0 ex_tenth 1 0 4 2)"
proof -
  have three: "double_round (3 * ex_tenth) = 5404319552844596 / 2 ^ 54"
    unfolding ex_tenth_def
    by (subst double_round_eval [where k = "- 2"])
       (simp_all add: pow2_def round_half_even_def Let_def)
  have one: "double_round ex_tenth = ex_tenth"
    using double_round_dyadic [of 3602879701896397 "- 55"] by (simp add: pow2_def ex_tenth_def)
  have two: "double_round (2 * ex_tenth) = 7205759403792794 / 2 ^ 55"
    using double_round_dyadic [of 7205759403792794 "- 55"] by (simp add: pow2_def ex_tenth_def)
  have diff: "5404319552844596 / 2 ^ 54 - ex_tenth = 7205759403792795 / 2 ^ 55"
    by (simp add: ex_tenth_def)
  have up: "double_round (7205759403792795 / 2 ^ 55) = 7205759403792795 / 2 ^ 55"
    using double_round_dyadic [of 7205759403792795 "- 55"] by (simp add: pow2_def)
  have down: "double_round (7205759403792794 / 2 ^ 55) = 7205759403792794 / 2 ^ 55"
    using double_round_dyadic [of 7205759403792794 "- 55"] by (simp add: pow2_def)
  have r: "delay (childOptions 0 ex_tenth (- 1) 0 4 1) = Some (7205759403792795 / 2 ^ 55)"
    unfolding childOptions_def generateStaggerDuration_def Let_def
    by (simp add: three one diff up del: power_numeral)
  have gf: "generateStaggerDuration 1 ex_tenth 4 2 = double_round (2 * ex_tenth)"
    by (simp add: generateStaggerDuration_def)
  have f: "delay (childOptions 0 ex_tenth 1 0 4 2) = Some (7205759403792794 / 2 ^ 55)"
  proof -
    have "delay (childOptions 0 ex_tenth 1 0 4 2)
        = Some (double_round (generateStaggerDuration 1 ex_tenth 4 2))"
      by (simp add: childOptions_def)
    then show ?thesis by (simp only: gf two down)
  qed
  have ne: "delay (childOptions 0 ex_tenth (- 1) 0 4 1) \<noteq> delay (childOptions 0 ex_tenth 1 0 4 2)"
    unfolding r f by simp
  from ex_tenth_double ex_tenth_def r f ne show ?thesis by blast
qed




text \<open>
  Claim C6. For every override stack and every priority \<open>p\<close>, \<open>isHighestPriority(p)\<close> is
  false exactly when some slot with an index greater than \<open>p\<close> is occupied; two stacks
  that are occupied at the same indices above \<open>p\<close> give the same answer, whatever their
  slots at \<open>p\<close> and below hold.
\<close>

theorem isHighestPriority_iff:
  "(isHighestPriority c p \<longleftrightarrow> \<not> (\<exists>i. p < i \<and> array_get (overrides c) i \<noteq> None)) \<and>
   ((\<forall>i. p < i \<longrightarrow> (array_get (overrides c') i = None) = (array_get (overrides c) i = None))
     \<longrightarrow> isHighestPriority c' p = isHighestPriority c p)"
  by (simp add: isHighestPriority_occupied)

theorem isHighestPriority_iff_witness:
  "\<not> isHighestPriority ex_stack 1 \<and> isHighestPriority ex_stack 2 \<and>
   array_get (overrides ex_stack) 2 \<noteq> None \<and>
   isHighestPriority (ex_stack\<lparr>overrides := [None, Some (Label ''tap''), Some (Label ''hover'')]\<rparr>) 1
     = isHighestPriority ex_stack 1"
proof -
  have h: "\<forall>i. 1 < i \<longrightarrow>
      (array_get (overrides (ex_stack\<lparr>overrides := [None, Some (Label ''tap''), Some (Label ''hover'')]\<rparr>)) i = None)
       = (array_get (overrides ex_stack) i = None)"
    by (simp add: ex_stack_def array_get_def nth_Cons')
  have occ: "array_get (overrides ex_stack) 2 \<noteq> None"
    by (simp add: ex_stack_def array_get_def)
  have free: "\<not> (\<exists>i. 2 < i \<and> array_get (overrides ex_stack) i \<noteq> None)"
    by (simp add: ex_stack_def array_get_def)
  from isHighestPriority_iff [of ex_stack 1 ex_stack] occ
  have "\<not> isHighestPriority ex_stack 1" by (auto intro: exI [of _ 2])
  moreover from isHighestPriority_iff [of ex_stack 2 ex_stack] free
  have "isHighestPriority ex_stack 2" by blast
  moreover from isHighestPriority_iff
      [of "ex_stack\<lparr>overrides := [None, Some (Label ''tap''), Some (Label ''hover'')]\<rparr>" 1 ex_stack] h
  have "isHighestPriority (ex_stack\<lparr>overrides := [None, Some (Label ''tap''), Some (Label ''hover'')]\<rparr>) 1
     = isHighestPriority ex_stack 1" by blast
  ultimately show ?thesis using occ by blast
qed

text \<open>
  Claim C7, as amended. In an animation pass at priority 0, every key of the pass's
  target that is processed (it is not in the \<open>isAnimating\<close> set, its value is tracked
  and its target value is defined) has its target value recorded in the base target.
  The target of the pass is the resolved target after unit conversion. Hence a \<open>start\<close>
  at priority 0 that is not held back by a higher override, on any controller state
  and so also on the state an earlier \<open>start\<close> left, leaves its own values in the base
  target: a \<open>start\<close> of an explicit target, a \<open>start\<close> of a label whose variant does not
  put the controller's own pass after its children's, and a \<open>start\<close> of a list of
  labels that ends in such a label. A list is animated from its last label to its
  first, and a key that one label has animated is skipped by the labels after it, so it
  is the last label of the list whose values the base target holds.
\<close>

theorem base_target_records_pass:
  assumes prio: "priority opts = None \<or> priority opts = Some 0"
    and tgt: "target (resolveVariant (Some v) None) = Some tgt"
    and conv: "unitConversion e (vals (checkForNewValues e (own c) tgt)) tgt
                 (transitionEnd (resolveVariant (Some v) None)) = (tgt', te')"
    and k: "k \<in> set (keys tgt')" "get_prop tgt' k \<noteq> Undefined"
    and tracked: "k \<in> set (keys tgt) \<or> map_of (vals (own c)) k \<noteq> None"
  shows "(k \<notin> isAnimating (own c) \<longrightarrow>
            map_of (baseTarget (fst (animate e (own c) (Some v) opts))) k = Some (get_prop tgt' k))
       \<and> ((priority opts = Some 0 \<longrightarrow> isHighestPriority (own c) 0) \<longrightarrow>
            map_of (baseTarget (own (fst (start e c (Def v) opts)))) k = Some (get_prop tgt' k)
          \<and> (\<forall>l. map_of (variants (own c)) l = Some v
                  \<and> (o_beforeChildren (orchestrate (Some v) (children c \<noteq> None))
                      \<or> \<not> o_afterChildren (orchestrate (Some v) (children c \<noteq> None)))
                \<longrightarrow> map_of (baseTarget (own (fst (start e c (Label l) opts)))) k
                      = Some (get_prop tgt' k)
                  \<and> (\<forall>ls. map_of (baseTarget (own (fst (start e c (LabelList (ls @ [l])) opts)))) k
                             = Some (get_prop tgt' k))))"
proof -
  have p0: "(case priority opts of None \<Rightarrow> 0 | Some p \<Rightarrow> p) = 0"
    using prio by auto
  have pass: "k \<in> isAnimating (fst (animate e f (Some v) opts))
       \<and> map_of (vals (fst (animate e f (Some v) opts))) k \<noteq> None
       \<and> map_of (baseTarget (fst (animate e f (Some v) opts))) k = Some (get_prop tgt' k)"
    if same: "vals f = vals (own c)" and na: "k \<notin> isAnimating f" for f :: "'a controls_fields"
  proof -
    have veq: "vals (checkForNewValues e f tgt) = vals (checkForNewValues e (own c) tgt)"
      using same by (rule checkForNewValues_vals_cong)
    have conv': "unitConversion e (vals (checkForNewValues e f tgt)) tgt
                 (transitionEnd (resolveVariant (Some v) None)) = (tgt', te')"
      using conv veq by simp
    have "map_of (vals (checkForNewValues e (own c) tgt)) k \<noteq> None"
      using tracked by (auto simp: checkForNewValues_vals)
    then obtain mv where mv: "map_of (vals (checkForNewValues e f tgt)) k = Some mv"
      unfolding veq by blast
    from animate_effect [OF tgt conv' k(1) na k(2) mv, of opts] p0 show ?thesis by simp
  qed
  have first: "k \<notin> isAnimating (own c) \<longrightarrow>
            map_of (baseTarget (fst (animate e (own c) (Some v) opts))) k = Some (get_prop tgt' k)"
    using pass [of "own c"] by simp
  have run: "start e c d opts =
        (case d of
           LabelList ls \<Rightarrow> animateVariantLabels e
              (resetIsAnimating (Controls (setPriorityAnimation (own c) d 0) (children c))) ls opts
         | Label l \<Rightarrow> animateVariant e
              (resetIsAnimating (Controls (setPriorityAnimation (own c) d 0) (children c))) l opts
         | Def v \<Rightarrow>
             (Controls (fst (animate e
                (own (resetIsAnimating (Controls (setPriorityAnimation (own c) d 0) (children c))))
                (Some v) opts))
               (children (resetIsAnimating (Controls (setPriorityAnimation (own c) d 0) (children c)))),
              snd (animate e
                (own (resetIsAnimating (Controls (setPriorityAnimation (own c) d 0) (children c))))
                (Some v) opts)))"
    if free: "priority opts = Some 0 \<longrightarrow> isHighestPriority (own c) 0" for d
  proof -
    have "isHighestPriority (own (Controls (setPriorityAnimation (own c) d 0) (children c))) 0"
      if "priority opts = Some 0"
      using that free by (simp add: isHighestPriority_setPriorityAnimation)
    then show ?thesis
      using prio by (auto simp: start_def Let_def split: animationDefinition.splits)
  qed
  have c2: "vals (own (resetIsAnimating (Controls (setPriorityAnimation (own c) d 0) (children c))))
              = vals (own c)"
    "k \<notin> isAnimating (own (resetIsAnimating (Controls (setPriorityAnimation (own c) d 0) (children c))))"
    "variants (own (resetIsAnimating (Controls (setPriorityAnimation (own c) d 0) (children c))))
              = variants (own c)"
    "(children (resetIsAnimating (Controls (setPriorityAnimation (own c) d 0) (children c))) \<noteq> None)
              = (children c \<noteq> None)" for d
    by (simp_all add: own_resetIsAnimating children_resetIsAnimating setPriorityAnimation_def)
  have second: "map_of (baseTarget (own (fst (start e c (Def v) opts)))) k = Some (get_prop tgt' k)"
    if free: "priority opts = Some 0 \<longrightarrow> isHighestPriority (own c) 0"
    using pass [OF c2(1,2), of "Def v"] by (simp add: run [OF free])
  have own_pass: "own (fst (animateVariant e
        (resetIsAnimating (Controls (setPriorityAnimation (own c) d 0) (children c))) l opts))
      = fst (animate e
          (own (resetIsAnimating (Controls (setPriorityAnimation (own c) d 0) (children c))))
          (Some v) opts)"
    if lv: "map_of (variants (own c)) l = Some v"
      and sync: "o_beforeChildren (orchestrate (Some v) (children c \<noteq> None))
                      \<or> \<not> o_afterChildren (orchestrate (Some v) (children c \<noteq> None))"
    for l d
  proof -
    let ?c2 = "resetIsAnimating (Controls (setPriorityAnimation (own c) d 0) (children c))"
    have lv2: "map_of (variants (own ?c2)) l = Some v"
      using lv by (simp only: c2(3))
    have sync2: "o_beforeChildren (orchestrate (Some v) (children ?c2 \<noteq> None))
                      \<or> \<not> o_afterChildren (orchestrate (Some v) (children ?c2 \<noteq> None))"
      using sync by (simp only: c2(4))
    have "own (fst (animateVariant e (Controls (own ?c2) (children ?c2)) l opts))
        = fst (animate e (own ?c2) (Some v) opts)"
      using lv2 sync2 by (rule animateVariant_own_pass)
    then show ?thesis by (simp only: controls.collapse)
  qed
  have third: "map_of (baseTarget (own (fst (start e c (Label l) opts)))) k = Some (get_prop tgt' k)"
    if free: "priority opts = Some 0 \<longrightarrow> isHighestPriority (own c) 0"
      and lv: "map_of (variants (own c)) l = Some v"
      and sync: "o_beforeChildren (orchestrate (Some v) (children c \<noteq> None))
                      \<or> \<not> o_afterChildren (orchestrate (Some v) (children c \<noteq> None))"
    for l
    using pass [OF c2(1,2), of "Label l"] own_pass [OF lv sync, of "Label l"]
    by (simp add: run [OF free])
  have fourth: "map_of (baseTarget (own (fst (start e c (LabelList (ls @ [l])) opts)))) k
                  = Some (get_prop tgt' k)"
    if free: "priority opts = Some 0 \<longrightarrow> isHighestPriority (own c) 0"
      and lv: "map_of (variants (own c)) l = Some v"
      and sync: "o_beforeChildren (orchestrate (Some v) (children c \<noteq> None))
                      \<or> \<not> o_afterChildren (orchestrate (Some v) (children c \<noteq> None))"
    for l ls
  proof -
    let ?c2 = "resetIsAnimating
                 (Controls (setPriorityAnimation (own c) (LabelList (ls @ [l])) 0) (children c))"
    let ?r = "animateVariant e ?c2 l opts"
    have st: "start e c (LabelList (ls @ [l])) opts = animateVariantLabels e ?c2 (ls @ [l]) opts"
      by (simp add: run [OF free])
    have fold: "fst (animateVariantLabels e ?c2 (ls @ [l]) opts) =
        fst (fold (\<lambda>label (c', ts).
                  let r = animateVariant e c' label opts in (fst r, ts @ [snd r])) (rev ls)
              (fst ?r, [] @ [snd ?r]))"
      by (simp add: animateVariantLabels_def Let_def)
    from pass [OF c2(1,2), of "LabelList (ls @ [l])"] own_pass [OF lv sync, of "LabelList (ls @ [l])"]
    have r: "k \<in> isAnimating (own (fst ?r))" "map_of (vals (own (fst ?r))) k \<noteq> None"
      "map_of (baseTarget (own (fst ?r))) k = Some (get_prop tgt' k)"
      by simp_all
    from animateVariantLabels_fold_keeps [OF r(1,2), of e opts "rev ls" "[] @ [snd ?r]"] r(3)
    show ?thesis unfolding st fold by simp
  qed
  from first second third fourth show ?thesis by blast
qed

theorem base_target_records_pass_witness:
  "''opacity'' \<notin> isAnimating (own ex_fade) \<and>
   map_of (baseTarget (fst (animate ex_env (own ex_fade) (Some ex_second) noOptions))) ''opacity''
     = Some (Num (1/5)) \<and>
   map_of (baseTarget (own (fst (start ex_env ex_fade (Def ex_first) noOptions)))) ''opacity''
     = Some (Num (1/2)) \<and>
   map_of (baseTarget (own (fst (start ex_env (fst (start ex_env ex_fade (Def ex_first) noOptions))
                                   (Def ex_second) noOptions)))) ''opacity''
     = Some (Num (1/5)) \<and>
   map_of (baseTarget (own (fst (start ex_env ex_fade (Label ''hidden'') noOptions)))) ''opacity''
     = Some (Num 0) \<and>
   map_of (baseTarget (own (fst (start ex_env (fst (start ex_env ex_fade (Label ''hidden'') noOptions))
                                   (Label ''visible'') noOptions)))) ''opacity''
     = Some (Num 1) \<and>
   map_of (baseTarget (own (fst (start ex_env (fst (start ex_env ex_fade (Label ''hidden'') noOptions))
                                   (LabelList [''hidden'', ''visible'']) noOptions)))) ''opacity''
     = Some (Num 1)"
proof -
  let ?c = "fst (start ex_env ex_fade (Def ex_first) noOptions)"
  let ?h = "fst (start ex_env ex_fade (Label ''hidden'') noOptions)"
  let ?v = "Static \<lparr>vo_target = [(''opacity'', Num 1)], vo_transition = None,
                     vo_transitionEnd = None\<rparr> :: unit variant"
  have prio: "priority noOptions = None \<or> priority noOptions = Some 0"
    by (simp add: noOptions_def)
  have free: "priority noOptions = Some 0 \<longrightarrow> isHighestPriority f 0" for f :: "unit controls_fields"
    by (simp add: noOptions_def)
  have tgt: "target (resolveVariant (Some ex_second) None) = Some [(''opacity'', Num (1/5))]"
    by (simp add: resolveVariant_def ex_second_def)
  have conv: "unitConversion ex_env (vals (checkForNewValues ex_env (own ?c) [(''opacity'', Num (1/5))]))
      [(''opacity'', Num (1/5))] (transitionEnd (resolveVariant (Some ex_second) None))
      = ([(''opacity'', Num (1/5))], None)"
    by (simp add: ex_env_def resolveVariant_def ex_second_def)
  have k: "''opacity'' \<in> set (keys [(''opacity'', Num (1/5))])"
    "get_prop [(''opacity'', Num (1/5))] ''opacity'' \<noteq> Undefined"
    "''opacity'' \<in> set (keys [(''opacity'', Num (1/5))]) \<or> map_of (vals (own ?c)) ''opacity'' \<noteq> None"
    by (simp_all add: keys_def get_prop_def)
  have first: "map_of (baseTarget (own ?c)) ''opacity'' = Some (Num (1/2))"
    by (simp add: ex_fade_def ex_first_def start_def noOptions_def setPriorityAnimation_def
        array_set_def newControls_def motionValue_def ex_env_def
        animate_def resolveVariant_def checkForNewValues_def keys_def
        animate_key_def get_prop_def set_prop_def isAnimatable_def Let_def)
  have tgt1: "target (resolveVariant (Some ?v) None) = Some [(''opacity'', Num 1)]"
    by (simp add: resolveVariant_def)
  have conv1: "unitConversion ex_env (vals (checkForNewValues ex_env (own ?h) [(''opacity'', Num 1)]))
      [(''opacity'', Num 1)] (transitionEnd (resolveVariant (Some ?v) None))
      = ([(''opacity'', Num 1)], None)"
    by (simp add: ex_env_def resolveVariant_def)
  have k1: "''opacity'' \<in> set (keys [(''opacity'', Num 1)])"
    "get_prop [(''opacity'', Num 1)] ''opacity'' \<noteq> Undefined"
    "''opacity'' \<in> set (keys [(''opacity'', Num 1)]) \<or> map_of (vals (own ?h)) ''opacity'' \<noteq> None"
    by (simp_all add: keys_def get_prop_def)
  have hidden: "map_of (baseTarget (own ?h)) ''opacity'' = Some (Num 0)"
    "children ?h = None"
    by (simp_all add: ex_fade_def start_def noOptions_def setPriorityAnimation_def
        array_set_def newControls_def motionValue_def ex_env_def orchestrate_def
        getAnimations_def animate_def resolveVariant_def checkForNewValues_def keys_def
        animate_key_def get_prop_def set_prop_def isAnimatable_def Let_def)
  have lv: "map_of (variants (own ?h)) ''visible'' = Some ?v"
    using start_config [of ex_env ex_fade "Label ''hidden''" noOptions]
    by (simp add: ex_fade_def newControls_def)
  have sync: "o_beforeChildren (orchestrate (Some ?v) (children ?h \<noteq> None))
      \<or> \<not> o_afterChildren (orchestrate (Some ?v) (children ?h \<noteq> None))"
    by (simp add: hidden(2) orchestrate_def)
  have val: "get_prop [(''opacity'', Num (1/5))] ''opacity'' = Num (1/5)"
    "get_prop [(''opacity'', Num 1)] ''opacity'' = Num 1"
    by (simp_all add: get_prop_def)
  from base_target_records_pass [OF prio tgt conv k] free [of "own ?c"]
  have second: "map_of (baseTarget (own (fst (start ex_env ?c (Def ex_second) noOptions)))) ''opacity''
      = Some (Num (1/5))"
    unfolding val by blast
  from base_target_records_pass [OF prio tgt1 conv1 k1] free [of "own ?h"] lv sync
  have both: "map_of (baseTarget (own (fst (start ex_env ?h (Label ''visible'') noOptions)))) ''opacity''
      = Some (Num 1)
    \<and> (\<forall>ls. map_of (baseTarget (own (fst (start ex_env ?h (LabelList (ls @ [''visible''])) noOptions))))
              ''opacity'' = Some (Num 1))"
    unfolding val by blast
  then have third: "map_of (baseTarget (own (fst (start ex_env ?h (Label ''visible'') noOptions)))) ''opacity''
      = Some (Num 1)" by (rule conjunct1)
  from both have "map_of (baseTarget (own (fst (start ex_env ?h
       (LabelList ([''hidden''] @ [''visible''])) noOptions)))) ''opacity'' = Some (Num 1)"
    by blast
  then have fourth: "map_of (baseTarget (own (fst (start ex_env ?h
       (LabelList [''hidden'', ''visible'']) noOptions)))) ''opacity'' = Some (Num 1)"
    by simp
  have idle: "''opacity'' \<notin> isAnimating (own ex_fade)"
    by (simp add: ex_fade_def newControls_def)
  have conv0: "unitConversion ex_env (vals (checkForNewValues ex_env (own ex_fade) [(''opacity'', Num (1/5))]))
      [(''opacity'', Num (1/5))] (transitionEnd (resolveVariant (Some ex_second) None))
      = ([(''opacity'', Num (1/5))], None)"
    by (simp add: ex_env_def resolveVariant_def ex_second_def)
  have k0: "''opacity'' \<in> set (keys [(''opacity'', Num (1/5))])
      \<or> map_of (vals (own ex_fade)) ''opacity'' \<noteq> None"
    by (simp add: keys_def)
  from base_target_records_pass [OF prio tgt conv0 k(1,2) k0] idle
  have pass: "map_of (baseTarget (fst (animate ex_env (own ex_fade) (Some ex_second) noOptions)))
      ''opacity'' = Some (Num (1/5))"
    unfolding val by blast
  from idle pass first second hidden(1) third fourth show ?thesis by blast
qed

text \<open>
  The claim as first stated covers every two \<open>start\<close> calls at priority 0. A call that
  names the priority 0 while a hover override is set at priority 1 is recorded and not
  run: after two such calls with the key \<open>opacity\<close> the base target has no entry for
  it. And a label whose variant asks for \<open>afterChildren\<close> has the children animated
  first and the controller's own pass run only when they have settled: when \<open>start\<close>
  returns, the base target still holds the 10 of the earlier call for \<open>x\<close>, not the 2 of
  the label's variant, and the completion is pending.
\<close>

theorem base_target_second_call_counterexample:
  "array_get (overrides (own ex_busy)) 1 = Some (Label ''hover'') \<and>
   map_of (baseTarget (own (fst (start ex_env
       (fst (start ex_env ex_busy (Def ex_first) \<lparr>delay = None, priority = Some 0\<rparr>))
       (Def ex_second) \<lparr>delay = None, priority = Some 0\<rparr>)))) ''opacity'' = None \<and>
   map_option (\<lambda>v. target (resolveVariant (Some v) None)) (map_of (variants (own ex_after)) ''show'')
     = Some (Some [(''x'', Num 2)]) \<and>
   map_of (baseTarget (own (fst (start ex_env ex_after (Def ex_first) noOptions)))) ''x''
     = Some (Num 10) \<and>
   map_of (baseTarget (own (fst (start ex_env (fst (start ex_env ex_after (Def ex_first) noOptions))
       (Label ''show'') noOptions)))) ''x'' = Some (Num 10) \<and>
   \<not> nothing_pending (snd (start ex_env (fst (start ex_env ex_after (Def ex_first) noOptions))
       (Label ''show'') noOptions))"
  by (simp add: ex_busy_def ex_fade_def ex_after_def ex_child_def ex_first_def ex_second_def
        start_def noOptions_def setPriorityAnimation_def isHighestPriority_def
        childOptions_def generateStaggerDuration_def
        array_set_def array_get_def newControls_def motionValue_def ex_env_def orchestrate_def
        or_bool_def or_num_def
        getAnimations_def animate_def resolveVariant_def checkForNewValues_def keys_def
        animate_key_def get_prop_def set_prop_def isAnimatable_def Let_def)





text \<open>
  Claim C9, as amended. \<open>setVariants\<close> with a mapping stores that mapping in place of
  the old one, nothing merged and nothing else changed; \<open>setVariants\<close> with no mapping
  (\<open>undefined\<close>) leaves the controller as it was.
\<close>

theorem setVariants_stores:
  "setVariants c (Some v) = c\<lparr>variants := v\<rparr> \<and> setVariants c None = c"
  by (simp add: setVariants_def)

text \<open>
  The claim as first stated also asks an absent argument to replace the stored mapping.
  It does not: after \<open>setVariants(undefined)\<close> the label \<open>visible\<close> of the earlier
  mapping still resolves.
\<close>

theorem setVariants_absent_counterexample:
  "map_of (variants (setVariants ex_visible None)) ''visible'' \<noteq> None"
  by (simp add: setVariants_def ex_visible_def newControls_def)

text \<open>
  Claim C10. For every visual element and props, \<open>buildHTMLProps\<close> returns a style
  object that merges \<open>reactStyle\<close>, \<open>style\<close> and \<open>vars\<close> of the element as cleaned and
  rebuilt, \<open>vars\<close> winning over \<open>style\<close> and \<open>style\<close> over \<open>reactStyle\<close> on a shared
  key. With a truthy \<open>drag\<close> it also sets \<open>style.userSelect\<close> to \<open>"none"\<close> and
  \<open>draggable\<close> to \<open>false\<close>; with a falsy \<open>drag\<close> the style is the plain merge and no
  \<open>draggable\<close> field is added.
\<close>

theorem buildHTMLProps_merge:
  assumes "buildHTMLProps m visualElement drag = (ve, htmlProps)"
    and "distinct (map fst (reactStyle ve))"
    and "distinct (map fst (style ve))"
    and "distinct (map fst (vars ve))"
  shows "ve = build m (clean m visualElement) \<and>
         (if truthy_drag drag
          then map_of (hp_style htmlProps) =
                 (map_of (reactStyle ve) ++ map_of (style ve) ++ map_of (vars ve))
                   (''userSelect'' \<mapsto> Str ''none'')
               \<and> hp_draggable htmlProps = Some False
          else map_of (hp_style htmlProps) =
                 map_of (reactStyle ve) ++ map_of (style ve) ++ map_of (vars ve)
               \<and> hp_draggable htmlProps = None)"
proof -
  let ?ve = "build m (clean m visualElement)"
  have ve: "ve = ?ve"
    using assms(1) by (auto simp: buildHTMLProps_def Let_def split: if_splits)
  have merged: "map_of (spread (spread (spread [] (reactStyle ve)) (style ve)) (vars ve)) =
      map_of (reactStyle ve) ++ map_of (style ve) ++ map_of (vars ve)"
    using assms(2-4) by (simp add: map_of_spread)
  show ?thesis
  proof (cases "truthy_drag drag")
    case True
    then have "htmlProps =
        \<lparr>hp_style = set_prop (spread (spread (spread [] (reactStyle ve)) (style ve)) (vars ve))
           ''userSelect'' (Str ''none''), hp_draggable = Some False\<rparr>"
      using assms(1) by (auto simp: buildHTMLProps_def Let_def)
    with True ve merged show ?thesis by (simp add: map_of_set_prop)
  next
    case False
    then have "htmlProps =
        \<lparr>hp_style = spread (spread (spread [] (reactStyle ve)) (style ve)) (vars ve),
         hp_draggable = None\<rparr>"
      using assms(1) by (auto simp: buildHTMLProps_def Let_def)
    with False ve merged show ?thesis by simp
  qed
qed

theorem buildHTMLProps_merge_witness:
  "buildHTMLProps ex_methods ex_element (Some (DragAxis ''x'')) =
     (\<lparr>reactStyle = [(''color'', Str ''red''), (''opacity'', Num 1)],
        style = [(''opacity'', Num 0)], vars = [(''--x'', Str ''1px'')]\<rparr>,
      \<lparr>hp_style = [(''color'', Str ''red''), (''opacity'', Num 0), (''--x'', Str ''1px''),
          (''userSelect'', Str ''none'')], hp_draggable = Some False\<rparr>) \<and>
   map_of [(''color'', Str ''red''), (''opacity'', Num 0), (''--x'', Str ''1px''),
           (''userSelect'', Str ''none'')] =
     (map_of [(''color'', Str ''red''), (''opacity'', Num 1)] ++ map_of [(''opacity'', Num 0)]
        ++ map_of [(''--x'', Str ''1px'')])(''userSelect'' \<mapsto> Str ''none'')"
proof -
  have run: "buildHTMLProps ex_methods ex_element (Some (DragAxis ''x'')) =
     (\<lparr>reactStyle = [(''color'', Str ''red''), (''opacity'', Num 1)],
        style = [(''opacity'', Num 0)], vars = [(''--x'', Str ''1px'')]\<rparr>,
      \<lparr>hp_style = [(''color'', Str ''red''), (''opacity'', Num 0), (''--x'', Str ''1px''),
          (''userSelect'', Str ''none'')], hp_draggable = Some False\<rparr>)"
    by (simp add: buildHTMLProps_def ex_methods_def ex_element_def spread_def set_prop_def)
  from buildHTMLProps_merge [OF run] run show ?thesis by simp
qed

end
